theory Spec2Isabelle
  imports Complex_Main "HOL-Library.Sublist" "HOL-Library.List_Lexorder" "HOL-Library.Monad_Syntax"
begin

section \<open>JavaScript strings\<close>

text \<open>
  A JavaScript string is a sequence of UTF-16 code units; \<open>length\<close>, indexing, the
  regular expressions of \<open>checker.js\<close> (none has the \<open>u\<close> flag) and the comparison
  \<open><\<close> all work on code units. A code unit is modelled by its number.
\<close>

type_synonym jschar = nat
type_synonym jstring = "jschar list"

definition js :: "string \<Rightarrow> jstring" where
  "js s = map of_char s"

text \<open>
  White space as \<open>String.prototype.trim\<close> and the class \<open>\s\<close> understand it:
  the WhiteSpace and LineTerminator code points of ECMAScript.
\<close>

definition isLineTerminator :: "jschar \<Rightarrow> bool" where
  "isLineTerminator c = (c = 10 \<or> c = 13 \<or> c = 8232 \<or> c = 8233)"

definition isSpace :: "jschar \<Rightarrow> bool" where
  "isSpace c = (c = 9 \<or> c = 11 \<or> c = 12 \<or> c = 32 \<or> c = 160 \<or> c = 5760
      \<or> (8192 \<le> c \<and> c \<le> 8202) \<or> c = 8239 \<or> c = 8287 \<or> c = 12288 \<or> c = 65279
      \<or> isLineTerminator c)"

definition isWordChar :: "jschar \<Rightarrow> bool" where
  "isWordChar c = ((65 \<le> c \<and> c \<le> 90) \<or> (97 \<le> c \<and> c \<le> 122) \<or> (48 \<le> c \<and> c \<le> 57) \<or> c = 95)"

definition trim :: "jstring \<Rightarrow> jstring" where
  "trim s = rev (dropWhile isSpace (rev (dropWhile isSpace s)))"

text \<open>\<open>s.split(d)\<close> for a one-character separator: always at least one piece.\<close>

fun split :: "jschar \<Rightarrow> jstring \<Rightarrow> jstring list" where
  "split d [] = [[]]"
| "split d (c # cs) =
     (let rest = split d cs
      in if c = d then [] # rest else (c # hd rest) # tl rest)"

text \<open>\<open>s.includes(w)\<close>: \<open>w\<close> starts at some position of \<open>s\<close>.\<close>

fun includesStr :: "jstring \<Rightarrow> jstring \<Rightarrow> bool" where
  "includesStr [] w = (w = [])"
| "includesStr (c # cs) w = (prefix w (c # cs) \<or> includesStr cs w)"

definition startsWith :: "jstring \<Rightarrow> jstring \<Rightarrow> bool" where
  "startsWith s w = prefix w s"

definition endsWith :: "jstring \<Rightarrow> jstring \<Rightarrow> bool" where
  "endsWith s w = suffix w s"

section \<open>Regular expressions\<close>

text \<open>
  The patterns of \<open>checker.js\<close> use literals, character classes, the quantifiers
  \<open>*\<close>, \<open>+\<close> and \<open>*?\<close> on a single class, \<open>?\<close> on a group, capture groups,
  alternation, \<open>^\<close> (with and without the \<open>m\<close> flag), \<open>$\<close> and \<open>\b\<close>.
\<close>

datatype citem = CRange char char | COne char | CSpace

datatype cls = Pos "citem list" | Neg "citem list"

fun item_mem :: "citem \<Rightarrow> jschar \<Rightarrow> bool" where
  "item_mem (CRange a b) c = (of_char a \<le> c \<and> c \<le> of_char b)"
| "item_mem (COne a) c = (c = of_char a)"
| "item_mem CSpace c = isSpace c"

fun cls_mem :: "cls \<Rightarrow> jschar \<Rightarrow> bool" where
  "cls_mem (Pos items) c = (\<exists>it \<in> set items. item_mem it c)"
| "cls_mem (Neg items) c = (\<not> (\<exists>it \<in> set items. item_mem it c))"

datatype re =
    Lit string
  | One cls
  | Star cls
  | Plus cls
  | LazyStar cls
  | Opt "re list"
  | Grp nat "re list"
  | Alt "re list list"
  | Bol
  | BolM
  | Eol
  | WordB

text \<open>
  A matcher state is the position reached and the captures made so far. The matcher returns
  the states in which a pattern can end, in the order in which a backtracking matcher tries
  them: a greedy quantifier offers its longest run first, a lazy one its shortest, an
  alternation its branches from left to right.
\<close>

type_synonym mstate = "nat \<times> (nat \<times> jstring) list"

definition run :: "cls \<Rightarrow> jstring \<Rightarrow> nat \<Rightarrow> nat" where
  "run c s i = length (takeWhile (cls_mem c) (drop i s))"

definition wordAt :: "jstring \<Rightarrow> nat \<Rightarrow> bool" where
  "wordAt s i = (i < length s \<and> isWordChar (s ! i))"

fun mt :: "jstring \<Rightarrow> re \<Rightarrow> mstate \<Rightarrow> mstate list"
and mts :: "jstring \<Rightarrow> re list \<Rightarrow> mstate \<Rightarrow> mstate list" where
  "mt s (Lit w) (i, cs) = (if prefix (js w) (drop i s) then [(i + length w, cs)] else [])"
| "mt s (One c) (i, cs) = (if i < length s \<and> cls_mem c (s ! i) then [(Suc i, cs)] else [])"
| "mt s (Star c) (i, cs) = map (\<lambda>k. (i + k, cs)) (rev [0 ..< Suc (run c s i)])"
| "mt s (Plus c) (i, cs) = map (\<lambda>k. (i + k, cs)) (rev [1 ..< Suc (run c s i)])"
| "mt s (LazyStar c) (i, cs) = map (\<lambda>k. (i + k, cs)) [0 ..< Suc (run c s i)]"
| "mt s (Opt rs) st = mts s rs st @ [st]"
| "mt s (Grp n rs) (i, cs) =
     map (\<lambda>(j, cs'). (j, cs' @ [(n, take (j - i) (drop i s))])) (mts s rs (i, cs))"
| "mt s (Alt rss) st = concat (map (\<lambda>rs. mts s rs st) rss)"
| "mt s Bol (i, cs) = (if i = 0 then [(i, cs)] else [])"
| "mt s BolM (i, cs) = (if i = 0 \<or> isLineTerminator (s ! (i - 1)) then [(i, cs)] else [])"
| "mt s Eol (i, cs) = (if i = length s then [(i, cs)] else [])"
| "mt s WordB (i, cs) =
     (if (0 < i \<and> wordAt s (i - 1)) \<noteq> wordAt s i then [(i, cs)] else [])"
| "mts s [] st = [st]"
| "mts s (r # rs) st = concat (map (mts s rs) (mt s r st))"

text \<open>
  The result of \<open>RegExp.prototype.exec\<close>: where the match starts (\<open>match.index\<close>),
  where it ends (the next \<open>lastIndex\<close> of a global pattern) and its capture groups.
\<close>

record rmatch =
  m_index :: nat
  m_end :: nat
  m_caps :: "(nat \<times> jstring) list"

definition matchAt :: "re list \<Rightarrow> jstring \<Rightarrow> nat \<Rightarrow> rmatch option" where
  "matchAt p s i =
     (case mts s p (i, []) of
        [] \<Rightarrow> None
      | (j, cs) # _ \<Rightarrow> Some \<lparr>m_index = i, m_end = j, m_caps = cs\<rparr>)"

fun scan :: "re list \<Rightarrow> jstring \<Rightarrow> nat list \<Rightarrow> rmatch option" where
  "scan p s [] = None"
| "scan p s (i # is) = (case matchAt p s i of Some m \<Rightarrow> Some m | None \<Rightarrow> scan p s is)"

definition exec :: "re list \<Rightarrow> jstring \<Rightarrow> nat \<Rightarrow> rmatch option" where
  "exec p s lastIndex = scan p s [lastIndex ..< Suc (length s)]"

definition test :: "re list \<Rightarrow> jstring \<Rightarrow> bool" where
  "test p s = (exec p s 0 \<noteq> None)"

text \<open>
  \<open>match[n]\<close>. Every group that \<open>checker.js\<close> reads lies on every path through its
  pattern, so a successful match always has it.
\<close>

definition grp :: "rmatch \<Rightarrow> nat \<Rightarrow> jstring" where
  "grp m n = (case map_of (m_caps m) n of Some w \<Rightarrow> w | None \<Rightarrow> [])"

lemma run_le: "i + run c s i \<le> max i (length s)"
proof -
  have "length (takeWhile (cls_mem c) (drop i s)) \<le> length (drop i s)"
    by (rule length_takeWhile_le)
  then show ?thesis by (simp add: run_def)
qed

lemma mt_mts_bound:
  "(st' \<in> set (mt s r st) \<longrightarrow> fst st \<le> length s \<longrightarrow> fst st \<le> fst st' \<and> fst st' \<le> length s)"
  "(st' \<in> set (mts s rs st) \<longrightarrow> fst st \<le> length s \<longrightarrow> fst st \<le> fst st' \<and> fst st' \<le> length s)"
proof (induction s r st and s rs st arbitrary: st' and st' rule: mt_mts.induct)
  case (1 s w i cs)
  show ?case
  proof (intro impI)
    assume a: "st' \<in> set (mt s (Lit w) (i, cs))" and b: "fst (i, cs) \<le> length s"
    from a have p: "prefix (js w) (drop i s)" and e: "st' = (i + length w, cs)"
      by (auto split: if_splits)
    from p have "length (js w) \<le> length (drop i s)" by (rule prefix_length_le)
    with b e show "fst (i, cs) \<le> fst st' \<and> fst st' \<le> length s"
      by (simp add: js_def)
  qed
next
  case (3 s c i cs)
  show ?case using run_le [of i c s] by auto
next
  case (4 s c i cs)
  show ?case using run_le [of i c s] by auto
next
  case (5 s c i cs)
  show ?case using run_le [of i c s] by auto
next
  case (7 s n rs i cs)
  then show ?case by fastforce
next
  case (14 s r rs st)
  show ?case
  proof (intro impI)
    assume a: "st' \<in> set (mts s (r # rs) st)" and b: "fst st \<le> length s"
    from a obtain m where m: "m \<in> set (mt s r st)" and r: "st' \<in> set (mts s rs m)"
      by auto
    from "14.IH"(1) m b have 1: "fst st \<le> fst m \<and> fst m \<le> length s" by blast
    from "14.IH"(2) [OF m] r 1 have "fst m \<le> fst st' \<and> fst st' \<le> length s" by blast
    with 1 show "fst st \<le> fst st' \<and> fst st' \<le> length s" by simp
  qed
qed (auto split: if_splits)

lemma scan_Some: "scan p s is = Some m \<Longrightarrow> \<exists>i \<in> set is. matchAt p s i = Some m"
  by (induction "is") (auto split: option.splits)

lemma exec_bound:
  assumes "exec p s li = Some m"
  shows "li \<le> m_index m \<and> m_index m \<le> m_end m \<and> m_end m \<le> length s"
proof -
  from assms obtain i where i: "li \<le> i" "i \<le> length s" and m: "matchAt p s i = Some m"
    by (auto simp: exec_def dest!: scan_Some)
  from m obtain j cs where e: "(j, cs) \<in> set (mts s p (i, []))"
      and mm: "m = \<lparr>m_index = i, m_end = j, m_caps = cs\<rparr>"
    by (auto simp: matchAt_def split: list.splits)
  from mt_mts_bound(2) [of "(j, cs)" s p "(i, [])"] e i have "i \<le> j \<and> j \<le> length s"
    by simp
  with i mm show ?thesis by simp
qed

text \<open>
  \<open>while ((match = pattern.exec(content)) !== null) { ... }\<close> with a global pattern:
  each \<open>exec\<close> starts at \<open>lastIndex\<close>, the end of the match before. A match that ends
  where the search started is found again at once, for ever: the loop does not return,
  which is the value \<open>None\<close>.
\<close>

function execAll :: "re list \<Rightarrow> jstring \<Rightarrow> nat \<Rightarrow> rmatch list option" where
  "execAll p s lastIndex =
     (case exec p s lastIndex of
        None \<Rightarrow> Some []
      | Some m \<Rightarrow>
          if m_end m \<le> lastIndex then None
          else (case execAll p s (m_end m) of None \<Rightarrow> None | Some ms \<Rightarrow> Some (m # ms)))"
  by pat_completeness auto
termination
proof (relation "measure (\<lambda>(p, s, li). length s - li)")
  show "wf (measure (\<lambda>(p, s, li). length s - li))" by simp
next
  fix p s lastIndex m
  assume "exec p s lastIndex = Some m" and "\<not> m_end m \<le> lastIndex"
  with exec_bound [of p s lastIndex m]
  have "length s - m_end m < length s - lastIndex"
    by arith
  then show "((p, s, m_end m), (p, s, lastIndex)) \<in> measure (\<lambda>(p, s, li). length s - li)"
    by simp
qed

declare execAll.simps [simp del]

section \<open>The patterns of \<open>checker.js\<close>\<close>

definition ws :: cls where
  "ws = Pos [CSpace]"

definition quote :: cls where
  "quote = Pos [COne (CHR 0x22), COne (CHR 0x27)]"

definition notQuote :: cls where
  "notQuote = Neg [COne (CHR 0x22), COne (CHR 0x27)]"

definition identStart :: cls where
  "identStart = Pos [CRange CHR ''A'' CHR ''Z'', CRange CHR ''a'' CHR ''z'', COne CHR ''_'']"

definition identRest :: cls where
  "identRest = Pos [CRange CHR ''A'' CHR ''Z'', CRange CHR ''a'' CHR ''z'',
     CRange CHR ''0'' CHR ''9'', COne CHR ''_'']"

definition alnum :: cls where
  "alnum = Pos [CRange CHR ''a'' CHR ''z'', CRange CHR ''A'' CHR ''Z'', CRange CHR ''0'' CHR ''9'']"

text \<open>\<^verbatim>\<open>/SPDX-License-Identifier:/\<close>\<close>

definition spdxPattern :: "re list" where
  "spdxPattern = [Lit ''SPDX-License-Identifier:'']"

text \<open>\<^verbatim>\<open>/^import\s+\{[^}]+\}\s+from\s+["'][^"']+["'];?$/\<close>\<close>

definition namedImportPattern :: "re list" where
  "namedImportPattern =
     [Bol, Lit ''import'', Plus ws, Lit ''{'', Plus (Neg [COne CHR ''}'']), Lit ''}'', Plus ws,
      Lit ''from'', Plus ws, One quote, Plus notQuote, One quote, Opt [Lit '';''], Eol]"

text \<open>\<^verbatim>\<open>/from\s+["']([^"']+)["']/\<close>\<close>

definition importPathPattern :: "re list" where
  "importPathPattern = [Lit ''from'', Plus ws, One quote, Grp 1 [Plus notQuote], One quote]"

text \<open>\<^verbatim>\<open>/^(\s*)contract\s+([A-Za-z_][A-Za-z0-9_]*)/gm\<close>\<close>

definition contractPattern :: "re list" where
  "contractPattern =
     [BolM, Grp 1 [Star ws], Lit ''contract'', Plus ws, Grp 2 [One identStart, Star identRest]]"

text \<open>\<^verbatim>\<open>/function\s+([A-Za-z_][A-Za-z0-9_]*)\s*\(\s*([^)]*)\s*\)\s*([^{]*?)\s*{/gs\<close>\<close>

definition functionPattern :: "re list" where
  "functionPattern =
     [Lit ''function'', Plus ws, Grp 1 [One identStart, Star identRest], Star ws, Lit ''('',
      Star ws, Grp 2 [Star (Neg [COne CHR '')''])], Star ws, Lit '')'', Star ws,
      Grp 3 [LazyStar (Neg [COne CHR ''{''])], Star ws, Lit ''{'']"

text \<open>\<^verbatim>\<open>/\b(public|external|internal|private)\b/\<close>\<close>

definition visibilityPattern :: "re list" where
  "visibilityPattern =
     [WordB,
      Grp 1 [Alt [[Lit ''public''], [Lit ''external''], [Lit ''internal''], [Lit ''private'']]],
      WordB]"

text \<open>\<^verbatim>\<open>/\s+([A-Za-z_][A-Za-z0-9_]*)(?:\s*$|\s*\[)/\<close>\<close>

definition argNamePattern :: "re list" where
  "argNamePattern =
     [Plus ws, Grp 1 [One identStart, Star identRest],
      Alt [[Star ws, Eol], [Star ws, Lit ''['']]]"

text \<open>\<^verbatim>\<open>/event\s+([A-Za-z_][A-Za-z0-9_]*)/g\<close>\<close>

definition eventPattern :: "re list" where
  "eventPattern = [Lit ''event'', Plus ws, Grp 1 [One identStart, Star identRest]]"

text \<open>\<^verbatim>\<open>/([A-Za-z_][A-Za-z0-9_]*)\s+(public|private|internal)?\s+constant/g\<close>\<close>

definition constantPattern :: "re list" where
  "constantPattern =
     [Grp 1 [One identStart, Star identRest], Plus ws,
      Opt [Grp 2 [Alt [[Lit ''public''], [Lit ''private''], [Lit ''internal'']]]],
      Plus ws, Lit ''constant'']"

text \<open>\<^verbatim>\<open>/\s+$/\<close>\<close>

definition trailingWhitespacePattern :: "re list" where
  "trailingWhitespacePattern = [Plus ws, Eol]"

text \<open>Naming convention helpers.\<close>

definition isCapWords :: "jstring \<Rightarrow> bool" where
  "isCapWords name = test [Bol, One (Pos [CRange CHR ''A'' CHR ''Z'']), Star alnum, Eol] name"

definition isMixedCase :: "jstring \<Rightarrow> bool" where
  "isMixedCase name = test [Bol, One (Pos [CRange CHR ''a'' CHR ''z'']), Star alnum, Eol] name"

definition isUpperCase :: "jstring \<Rightarrow> bool" where
  "isUpperCase name =
     test [Bol, One (Pos [CRange CHR ''A'' CHR ''Z'']),
           Star (Pos [CRange CHR ''A'' CHR ''Z'', CRange CHR ''0'' CHR ''9'', COne CHR ''_'']), Eol] name"

definition isUnderscoreMixedCase :: "jstring \<Rightarrow> bool" where
  "isUnderscoreMixedCase name =
     test [Bol, Lit ''_'', One (Pos [CRange CHR ''a'' CHR ''z'']), Star alnum, Eol] name"

definition isPastTense :: "jstring \<Rightarrow> bool" where
  "isPastTense eventName =
     list_ex (\<lambda>suffix. endsWith eventName (js suffix))
       [''ed'', ''Updated'', ''Created'', ''Deleted'', ''Added'', ''Removed'', ''Set'', ''Changed'']"

definition extractImportPath :: "jstring \<Rightarrow> jstring option" where
  "extractImportPath importLine =
     (case exec importPathPattern importLine 0 of
        Some m \<Rightarrow> Some (grp m 1)
      | None \<Rightarrow> None)"

section \<open>Configuration (\<open>build-config.js\<close>)\<close>

text \<open>
  \<open>RULES\<close> has one object for each category; a category that is missing (or set to a
  falsy value) is \<open>None\<close>. Only the rules that \<open>checker.js\<close> reads are fields. A flag is
  read for its truthiness only, so a missing flag is \<open>False\<close>; a style name is a string
  and the indentation width is a number, \<open>None\<close> when missing.
\<close>

record structure_rules =
  spdxLicense :: bool
  spdxAtTop :: bool
  pragmaAfterLicense :: bool

record imports_rules =
  namedOnly :: bool
  alphabetical :: bool

record naming_rules =
  contracts :: "string option"
  functionsStyle :: "string option"
  functionArguments :: "string option"
  privateInternalFunctions :: "string option"
  events :: "string option"
  eventsPastTense :: bool
  constants :: "string option"

text \<open>
  The line-length limit is whatever value the configuration gives. The checker uses two
  things of it: the number it is compared as, and the text a template literal prints for it
  (\<open>120\<close> for 120, \<open>120.5\<close> for 120.5, \<open>1e+21\<close> for 1e21). The model keeps both; a
  limit that no line exceeds (missing, falsy such as 0 and \<open>NaN\<close>, or \<open>Infinity\<close>) is \<open>None\<close>.
\<close>

record jsnumber =
  numValue :: real
  numText :: jstring

record layout_rules =
  maxLineLength :: "jsnumber option"
  indentation :: "int option"
  noTabs :: bool
  noTrailingWhitespace :: bool

record rules =
  cat_structure :: "structure_rules option"
  cat_imports :: "imports_rules option"
  cat_naming :: "naming_rules option"
  cat_layout :: "layout_rules option"

record config =
  RULES :: rules
  RULE_SEVERITY :: "string \<rightharpoonup> string"

text \<open>Truthiness of a string and of a number that may be missing.\<close>

definition truthyS :: "string option \<Rightarrow> bool" where
  "truthyS v = (case v of None \<Rightarrow> False | Some s \<Rightarrow> s \<noteq> [])"

definition truthyN :: "int option \<Rightarrow> bool" where
  "truthyN v = (case v of None \<Rightarrow> False | Some n \<Rightarrow> n \<noteq> 0)"

text \<open>\<open>config.RULE_SEVERITY[key] || dflt\<close>\<close>

definition severityOr :: "config \<Rightarrow> string \<Rightarrow> string \<Rightarrow> string" where
  "severityOr cfg key dflt =
     (case RULE_SEVERITY cfg key of
        None \<Rightarrow> dflt
      | Some v \<Rightarrow> if v = [] then dflt else v)"

section \<open>Findings and statistics\<close>

record finding =
  fileName :: jstring
  line :: nat
  rule :: string
  message :: jstring
  severity :: string

record statistics =
  files :: nat
  errors :: nat
  warnings :: nat
  info :: nat
  passed :: nat

text \<open>The two module-level variables of \<open>checker.js\<close>, threaded through every function.\<close>

record globals =
  issues :: "finding list"
  stats :: statistics

definition initial :: globals where
  "initial = \<lparr>issues = [],
     stats = \<lparr>files = 0, errors = 0, warnings = 0, info = 0, passed = 0\<rparr>\<rparr>"

definition addIssue :: "jstring \<Rightarrow> nat \<Rightarrow> string \<Rightarrow> jstring \<Rightarrow> string \<Rightarrow> globals \<Rightarrow> globals" where
  "addIssue f l r msg sev g =
     (let g1 = g\<lparr>issues := issues g @ [\<lparr>fileName = f, line = l, rule = r, message = msg, severity = sev\<rparr>]\<rparr>
      in if sev = ''error'' then g1\<lparr>stats := (stats g1)\<lparr>errors := errors (stats g1) + 1\<rparr>\<rparr>
         else if sev = ''warning'' then g1\<lparr>stats := (stats g1)\<lparr>warnings := warnings (stats g1) + 1\<rparr>\<rparr>
         else if sev = ''info'' then g1\<lparr>stats := (stats g1)\<lparr>info := info (stats g1) + 1\<rparr>\<rparr>
         else g1)"

text \<open>
  A contract as \<open>findContracts\<close> returns it, with the text that
  \<open>fs.readFileSync(contract.fullPath, 'utf8')\<close> gives for it: finding and reading the
  files is the caller's side of the engine.
\<close>

record contract =
  path :: jstring
  fileText :: jstring

section \<open>Small helpers\<close>

fun findIndex :: "('a \<Rightarrow> bool) \<Rightarrow> 'a list \<Rightarrow> nat option" where
  "findIndex P [] = None"
| "findIndex P (x # xs) = (if P x then Some 0 else map_option Suc (findIndex P xs))"

text \<open>\<open>line.length\<close> in a template literal: a length, printed in decimal digits.\<close>

fun showNat :: "nat \<Rightarrow> jstring" where
  "showNat n = (if n < 10 then [48 + n] else showNat (n div 10) @ [48 + n mod 10])"

declare showNat.simps [simp del]

text \<open>\<open>content.substring(0, match.index).split('\n').length\<close>\<close>

definition lineNumberAt :: "jstring \<Rightarrow> nat \<Rightarrow> nat" where
  "lineNumberAt content index = length (split 10 (take index content))"

section \<open>The structure pass\<close>

definition checkFileStructure :: "config \<Rightarrow> contract \<Rightarrow> jstring \<Rightarrow> jstring list \<Rightarrow> globals \<Rightarrow> globals" where
  "checkFileStructure cfg c content lines g =
     (case cat_structure (RULES cfg) of
        None \<Rightarrow> g
      | Some rules \<Rightarrow>
          let g1 =
                (if spdxLicense rules then
                   (if exec spdxPattern content 0 = None then
                      addIssue (path c) 1 ''structure.spdxLicense'' (js ''Missing SPDX license identifier'')
                        (severityOr cfg ''structure.spdxLicense'' ''error'') g
                    else if spdxAtTop rules \<and> 0 < length lines then
                      (let firstLine = trim (lines ! 0)
                       in if \<not> includesStr firstLine (js ''SPDX-License-Identifier:'') then
                            addIssue (path c) 1 ''structure.spdxAtTop''
                              (js ''SPDX license should be on first line'') ''warning'' g
                          else g)
                    else g)
                 else g);
              g2 =
                (if pragmaAfterLicense rules then
                   (let pragmaLineIndex = findIndex (\<lambda>l. startsWith (trim l) (js ''pragma solidity'')) lines;
                        spdxLineIndex = findIndex (\<lambda>l. includesStr l (js ''SPDX-License-Identifier:'')) lines
                    in case (pragmaLineIndex, spdxLineIndex) of
                         (Some pragmaIdx, Some spdxIdx) \<Rightarrow>
                           if pragmaIdx < spdxIdx then
                             addIssue (path c) (pragmaIdx + 1) ''structure.pragmaAfterLicense''
                               (js ''Pragma should come after SPDX license'') ''warning'' g1
                           else g1
                       | _ \<Rightarrow> g1)
                 else g1)
          in g2)"

section \<open>The import pass\<close>

text \<open>The first \<open>forEach\<close>: the trimmed import lines with their line numbers.\<close>

definition collectImports :: "jstring list \<Rightarrow> (jstring \<times> nat) list" where
  "collectImports lines =
     map (\<lambda>(index, l). (trim l, index + 1))
       (filter (\<lambda>(index, l). startsWith (trim l) (js ''import '')) (enumerate 0 lines))"

text \<open>\<open>currentFrom && previousFrom && currentFrom < previousFrom\<close>\<close>

definition outOfOrder :: "jstring option \<Rightarrow> jstring option \<Rightarrow> bool" where
  "outOfOrder currentFrom previousFrom =
     (case (currentFrom, previousFrom) of
        (Some cur, Some prev) \<Rightarrow> cur \<noteq> [] \<and> prev \<noteq> [] \<and> cur < prev
      | _ \<Rightarrow> False)"

text \<open>The body of the second \<open>forEach\<close>.\<close>

definition checkImport ::
  "imports_rules \<Rightarrow> contract \<Rightarrow> (jstring \<times> nat) list \<Rightarrow> nat \<times> (jstring \<times> nat) \<Rightarrow> globals \<Rightarrow> globals" where
  "checkImport rules c imps entry g =
     (case entry of (index, (lineStr, lineNumber)) \<Rightarrow>
        let g1 =
              (if namedOnly rules \<and> \<not> test namedImportPattern lineStr then
                 addIssue (path c) lineNumber ''imports.namedOnly''
                   (js ''Use named imports: import {Contract} from '' @ [34] @ js ''./file.sol'' @ [34])
                   ''warning'' g
               else g);
            g2 =
              (if alphabetical rules \<and> 0 < index then
                 (let currentFrom = extractImportPath lineStr;
                      previousFrom = extractImportPath (fst (imps ! (index - 1)))
                  in if outOfOrder currentFrom previousFrom then
                       addIssue (path c) lineNumber ''imports.alphabetical''
                         (js ''Imports should be alphabetically ordered'') ''warning'' g1
                     else g1)
               else g1)
        in g2)"

definition checkImports :: "config \<Rightarrow> contract \<Rightarrow> jstring \<Rightarrow> jstring list \<Rightarrow> globals \<Rightarrow> globals" where
  "checkImports cfg c content lines g =
     (case cat_imports (RULES cfg) of
        None \<Rightarrow> g
      | Some rules \<Rightarrow>
          let imps = collectImports lines
          in fold (checkImport rules c imps) (enumerate 0 imps) g)"

section \<open>The naming pass\<close>

text \<open>The bodies of the four \<open>while\<close> loops, one call for each match.\<close>

definition checkContractMatch ::
  "config \<Rightarrow> naming_rules \<Rightarrow> contract \<Rightarrow> jstring \<Rightarrow> rmatch \<Rightarrow> globals \<Rightarrow> globals" where
  "checkContractMatch cfg rules c content m g =
     (let contractName = grp m 2;
          lineNumber = lineNumberAt content (m_index m)
      in if contracts rules = Some ''CapWords'' \<and> \<not> isCapWords contractName then
           addIssue (path c) lineNumber ''naming.contracts''
             (js ''Contract name '' @ [39] @ contractName @ [39] @ js '' should use CapWords style'')
             (severityOr cfg ''naming.contracts'' ''error'') g
         else g)"

definition checkArgument :: "contract \<Rightarrow> nat \<Rightarrow> jstring \<Rightarrow> globals \<Rightarrow> globals" where
  "checkArgument c lineNumber arg g =
     (if arg \<noteq> [] then
        (case exec argNamePattern arg 0 of
           None \<Rightarrow> g
         | Some argNameMatch \<Rightarrow>
             let argName = grp argNameMatch 1
             in if argName \<in> set (map js [''memory'', ''storage'', ''calldata'']) then g
                else if \<not> isUnderscoreMixedCase argName then
                  addIssue (path c) lineNumber ''naming.functionArguments''
                    (js ''Function argument '' @ [39] @ argName @ [39]
                       @ js '' should use _underscoreMixedCase style'')
                    ''error'' g
                else g)
      else g)"

definition resolveVisibility :: "jstring \<Rightarrow> jstring" where
  "resolveVisibility modifiersAndVisibility =
     (case exec visibilityPattern modifiersAndVisibility 0 of
        Some visibilityMatch \<Rightarrow> grp visibilityMatch 1
      | None \<Rightarrow> js ''internal'')"

definition checkFunctionMatch ::
  "config \<Rightarrow> naming_rules \<Rightarrow> contract \<Rightarrow> jstring \<Rightarrow> rmatch \<Rightarrow> globals \<Rightarrow> globals" where
  "checkFunctionMatch cfg rules c content m g =
     (let functionName = grp m 1;
          functionArgs = grp m 2;
          modifiersAndVisibility = grp m 3;
          lineNumber = lineNumberAt content (m_index m)
      in if functionName \<in> set (map js [''constructor'', ''receive'', ''fallback'']) then g
         else
           let visibility = resolveVisibility modifiersAndVisibility;
               g1 =
                 (if privateInternalFunctions rules = Some ''_underscoreMixedCase'' then
                    (if (visibility = js ''private'' \<or> visibility = js ''internal'')
                        \<and> \<not> isUnderscoreMixedCase functionName then
                       addIssue (path c) lineNumber ''naming.privateInternalFunctions''
                         (visibility @ js '' function '' @ [39] @ functionName @ [39]
                            @ js '' should use _underscoreMixedCase style'')
                         ''error'' g
                     else g)
                  else g);
               g2 =
                 (if functionsStyle rules = Some ''mixedCase'' then
                    (let shouldHaveUnderscore =
                           ((visibility = js ''private'' \<or> visibility = js ''internal'')
                            \<and> privateInternalFunctions rules = Some ''_underscoreMixedCase'')
                     in if \<not> shouldHaveUnderscore \<and> \<not> isMixedCase functionName then
                          addIssue (path c) lineNumber ''naming.functions''
                            (js ''Function name '' @ [39] @ functionName @ [39]
                               @ js '' should use mixedCase style'')
                            (severityOr cfg ''naming.functions'' ''error'') g1
                        else g1)
                  else g1);
               g3 =
                 (if functionArguments rules = Some ''_underscoreMixedCase'' \<and> trim functionArgs \<noteq> [] then
                    fold (checkArgument c lineNumber) (map trim (split 44 functionArgs)) g2
                  else g2)
           in g3)"

definition checkEventMatch ::
  "naming_rules \<Rightarrow> contract \<Rightarrow> jstring \<Rightarrow> rmatch \<Rightarrow> globals \<Rightarrow> globals" where
  "checkEventMatch rules c content m g =
     (let eventName = grp m 1;
          lineNumber = lineNumberAt content (m_index m);
          g1 =
            (if events rules = Some ''CapWords'' \<and> \<not> isCapWords eventName then
               addIssue (path c) lineNumber ''naming.events''
                 (js ''Event name '' @ [39] @ eventName @ [39] @ js '' should use CapWords style'')
                 ''error'' g
             else g);
          g2 =
            (if eventsPastTense rules \<and> \<not> isPastTense eventName then
               addIssue (path c) lineNumber ''naming.eventsPastTense''
                 (js ''Event name '' @ [39] @ eventName @ [39]
                    @ js '' should be past tense (e.g., '' @ [39] @ js ''OwnerUpdated'' @ [39]
                    @ js '' not '' @ [39] @ js ''OwnerUpdate'' @ [39] @ js '')'')
                 ''info'' g1
             else g1)
      in g2)"

definition checkConstantMatch ::
  "naming_rules \<Rightarrow> contract \<Rightarrow> jstring \<Rightarrow> rmatch \<Rightarrow> globals \<Rightarrow> globals" where
  "checkConstantMatch rules c content m g =
     (let constantName = grp m 1;
          lineNumber = lineNumberAt content (m_index m)
      in if constants rules = Some ''UPPER_CASE'' \<and> \<not> isUpperCase constantName then
           addIssue (path c) lineNumber ''naming.constants''
             (js ''Constant '' @ [39] @ constantName @ [39]
                @ js '' should use UPPER_CASE_WITH_UNDERSCORES style'')
             ''error'' g
         else g)"

text \<open>
  One \<open>while\<close> loop over the matches of a global pattern. The body reads neither the
  pattern nor its \<open>lastIndex\<close>, so the matches are those of \<open>execAll\<close>; a loop that does
  not return gives no state.
\<close>

definition forEachMatch ::
  "re list \<Rightarrow> jstring \<Rightarrow> (rmatch \<Rightarrow> globals \<Rightarrow> globals) \<Rightarrow> globals \<Rightarrow> globals option" where
  "forEachMatch p content body g =
     (case execAll p content 0 of
        None \<Rightarrow> None
      | Some ms \<Rightarrow> Some (fold body ms g))"

definition checkNaming :: "config \<Rightarrow> contract \<Rightarrow> jstring \<Rightarrow> jstring list \<Rightarrow> globals \<Rightarrow> globals option" where
  "checkNaming cfg c content lines g =
     (case cat_naming (RULES cfg) of
        None \<Rightarrow> Some g
      | Some rules \<Rightarrow>
          do {
            g1 \<leftarrow> (if truthyS (contracts rules) then
                     forEachMatch contractPattern content (checkContractMatch cfg rules c content) g
                   else Some g);
            g2 \<leftarrow> (if truthyS (functionsStyle rules) \<or> truthyS (functionArguments rules)
                      \<or> truthyS (privateInternalFunctions rules) then
                     forEachMatch functionPattern content (checkFunctionMatch cfg rules c content) g1
                   else Some g1);
            g3 \<leftarrow> (if truthyS (events rules) then
                     forEachMatch eventPattern content (checkEventMatch rules c content) g2
                   else Some g2);
            (if truthyS (constants rules) then
               forEachMatch constantPattern content (checkConstantMatch rules c content) g3
             else Some g3)
          })"

section \<open>The layout pass\<close>

definition checkLine ::
  "config \<Rightarrow> layout_rules \<Rightarrow> contract \<Rightarrow> nat \<times> jstring \<Rightarrow> globals \<Rightarrow> globals" where
  "checkLine cfg rules c entry g =
     (case entry of (index, lineStr) \<Rightarrow>
        let lineNumber = index + 1;
            g1 =
              (case maxLineLength rules of
                 None \<Rightarrow> g
               | Some maxLen \<Rightarrow>
                   if numValue maxLen \<noteq> 0 \<and> numValue maxLen < real (length lineStr) then
                     addIssue (path c) lineNumber ''layout.maxLineLength''
                       (js ''Line length '' @ showNat (length lineStr) @ js '' exceeds maximum ''
                          @ numText maxLen)
                       (severityOr cfg ''layout.maxLineLength'' ''warning'') g
                   else g);
            g2 =
              (if truthyN (indentation rules) \<and> noTabs rules then
                 (if includesStr lineStr [9] then
                    addIssue (path c) lineNumber ''layout.noTabs''
                      (js ''Use spaces instead of tabs for indentation'') ''error'' g1
                  else g1)
               else g1);
            g3 =
              (if noTrailingWhitespace rules \<and> exec trailingWhitespacePattern lineStr 0 \<noteq> None then
                 addIssue (path c) lineNumber ''layout.noTrailingWhitespace''
                   (js ''Remove trailing whitespace'') ''warning'' g2
               else g2)
        in g3)"

definition checkLayout :: "config \<Rightarrow> contract \<Rightarrow> jstring \<Rightarrow> jstring list \<Rightarrow> globals \<Rightarrow> globals" where
  "checkLayout cfg c content lines g =
     (case cat_layout (RULES cfg) of
        None \<Rightarrow> g
      | Some rules \<Rightarrow> fold (checkLine cfg rules c) (enumerate 0 lines) g)"

section \<open>One file, and a run\<close>

definition checkFile :: "config \<Rightarrow> contract \<Rightarrow> globals \<Rightarrow> globals option" where
  "checkFile cfg c g =
     (let content = fileText c;
          lines = split 10 content;
          g0 = g\<lparr>stats := (stats g)\<lparr>files := files (stats g) + 1\<rparr>\<rparr>;
          g1 = checkFileStructure cfg c content lines g0;
          g2 = checkImports cfg c content lines g1
      in case checkNaming cfg c content lines g2 of
           None \<Rightarrow> None
         | Some g3 \<Rightarrow> Some (checkLayout cfg c content lines g3))"

text \<open>\<open>contracts.forEach(contract => { checkFile(contract); })\<close>\<close>

fun checkAll :: "config \<Rightarrow> contract list \<Rightarrow> globals \<Rightarrow> globals option" where
  "checkAll cfg [] g = Some g"
| "checkAll cfg (c # cs) g =
     (case checkFile cfg c g of None \<Rightarrow> None | Some g' \<Rightarrow> checkAll cfg cs g')"

text \<open>
  The exit status that \<open>main\<close> computes once every file is checked: \<open>process.exit(1)\<close>
  when \<open>stats.errors > 0\<close>, and the status 0 of a script that runs to its end otherwise.
\<close>

definition exitStatus :: "globals \<Rightarrow> nat" where
  "exitStatus g = (if 0 < errors (stats g) then 1 else 0)"

definition main :: "config \<Rightarrow> contract list \<Rightarrow> globals \<Rightarrow> (globals \<times> nat) option" where
  "main cfg cs g =
     (case checkAll cfg cs g of
        None \<Rightarrow> None
      | Some g' \<Rightarrow> Some (g', exitStatus g'))"


section \<open>What each pass appends\<close>

text \<open>
  Every pass changes the globals only by calls of \<open>addIssue\<close>. The lists below are the
  findings of each pass, in the order of the calls; the lemmas show that a pass is the
  sequence of \<open>addIssue\<close> calls for its list.
\<close>


definition emit :: "finding \<Rightarrow> globals \<Rightarrow> globals" where
  "emit f = addIssue (fileName f) (line f) (rule f) (message f) (severity f)"

lemma issues_addIssue [simp]:
  "issues (addIssue f l r m s g) = issues g @ [\<lparr>fileName = f, line = l, rule = r, message = m, severity = s\<rparr>]"
  by (simp add: addIssue_def Let_def)

lemma addIssue_emit:
  "addIssue f l r m s = emit \<lparr>fileName = f, line = l, rule = r, message = m, severity = s\<rparr>"
  by (simp add: emit_def)

lemma issues_emit [simp]: "issues (emit f g) = issues g @ [f]"
  by (simp add: emit_def)

lemma issues_fold_emit [simp]: "issues (fold emit fs g) = issues g @ fs"
  by (induction fs arbitrary: g) simp_all

lemma issues_initial [simp]: "issues initial = []"
  by (simp add: initial_def)


lemma fold_body_emit:
  assumes "\<And>x g. body x g = fold emit (F x) g"
  shows "fold body xs g = fold emit (concat (map F xs)) g"
  by (induction xs arbitrary: g) (simp_all add: assms)

text \<open>The least number of characters a pattern consumes (a lower bound).\<close>


fun minLen :: "re \<Rightarrow> nat" where
  "minLen (Lit w) = length w"
| "minLen (One c) = 1"
| "minLen (Plus c) = 1"
| "minLen _ = 0"

lemma mt_mts_minLen:
  "(st' \<in> set (mt s r st) \<longrightarrow> fst st + minLen r \<le> fst st')"
  "(st' \<in> set (mts s rs st) \<longrightarrow> fst st + sum_list (map minLen rs) \<le> fst st')"
proof (induction s r st and s rs st arbitrary: st' and st' rule: mt_mts.induct)
  case (6 s rs st)
  have "fst st \<le> fst st'" if "st' \<in> set (mts s rs st)"
    using "6.IH" [of st'] that by simp
  then show ?case by auto
next
  case (7 s n rs i cs)
  have "i \<le> fst st'" if "st' \<in> set (mt s (Grp n rs) (i, cs))"
  proof -
    from that obtain j cs' where "(j, cs') \<in> set (mts s rs (i, cs))" and "fst st' = j"
      by auto
    with "7.IH" [of "(j, cs')"] show ?thesis by simp
  qed
  then show ?case by simp
next
  case (8 s rss st)
  have "fst st \<le> fst st'" if "st' \<in> set (mt s (Alt rss) st)"
  proof -
    from that obtain rs where "rs \<in> set rss" and "st' \<in> set (mts s rs st)"
      by auto
    with "8.IH" [of rs st'] show ?thesis by simp
  qed
  then show ?case by simp
next
  case (14 s r rs st)
  show ?case
  proof (intro impI)
    assume a: "st' \<in> set (mts s (r # rs) st)"
    from a obtain m where m: "m \<in> set (mt s r st)" and r: "st' \<in> set (mts s rs m)"
      by auto
    from "14.IH"(1) m have 1: "fst st + minLen r \<le> fst m" by blast
    from "14.IH"(2) [OF m] r have "fst m + sum_list (map minLen rs) \<le> fst st'" by blast
    with 1 show "fst st + sum_list (map minLen (r # rs)) \<le> fst st'" by simp
  qed
qed (auto split: if_splits simp: js_def)

lemma exec_progress:
  assumes "exec p s li = Some m" and "0 < sum_list (map minLen p)"
  shows "li < m_end m"
proof -
  from assms obtain i where i: "li \<le> i" and m: "matchAt p s i = Some m"
    by (auto simp: exec_def dest!: scan_Some)
  from m obtain j cs where e: "(j, cs) \<in> set (mts s p (i, []))"
      and mm: "m = \<lparr>m_index = i, m_end = j, m_caps = cs\<rparr>"
    by (auto simp: matchAt_def split: list.splits)
  from mt_mts_minLen(2) [of "(j, cs)" s p "(i, [])"] e have "i + sum_list (map minLen p) \<le> j"
    by simp
  with i mm assms(2) show ?thesis by simp
qed

lemma execAll_total: "0 < sum_list (map minLen p) \<Longrightarrow> execAll p s li \<noteq> None"
proof (induction p s li rule: execAll.induct)
  case (1 p s lastIndex)
  show ?case
  proof (cases "exec p s lastIndex")
    case None
    then show ?thesis by (simp add: execAll.simps)
  next
    case (Some m)
    with exec_progress [OF Some "1.prems"] have lt: "\<not> m_end m \<le> lastIndex" by simp
    from "1.IH" [OF Some lt "1.prems"] Some lt show ?thesis
      by (subst execAll.simps) (auto split: option.splits)
  qed
qed

lemma forEachMatch_total:
  "0 < sum_list (map minLen p) \<Longrightarrow>
   forEachMatch p content body g = Some (fold body (the (execAll p content 0)) g)"
  using execAll_total [of p content 0] by (auto simp: forEachMatch_def)


definition mk :: "jstring \<Rightarrow> nat \<Rightarrow> string \<Rightarrow> jstring \<Rightarrow> string \<Rightarrow> finding" where
  "mk f l r m s = \<lparr>fileName = f, line = l, rule = r, message = m, severity = s\<rparr>"

lemma addIssue_mk: "addIssue f l r m s = emit (mk f l r m s)"
  by (simp add: emit_def mk_def)

lemma fold_emit_if:
  "fold emit (if b then L else M) g = (if b then fold emit L g else fold emit M g)"
  by simp

lemma fold_emit_case:
  "fold emit (case x of None \<Rightarrow> L | Some v \<Rightarrow> M v) g =
     (case x of None \<Rightarrow> fold emit L g | Some v \<Rightarrow> fold emit (M v) g)"
  by (cases x) simp_all

definition lineFindings :: "config \<Rightarrow> layout_rules \<Rightarrow> contract \<Rightarrow> nat \<Rightarrow> jstring \<Rightarrow> finding list" where
  "lineFindings cfg rules c index lineStr =
     (case maxLineLength rules of
        None \<Rightarrow> []
      | Some maxLen \<Rightarrow>
          if numValue maxLen \<noteq> 0 \<and> numValue maxLen < real (length lineStr) then
            [mk (path c) (index + 1) ''layout.maxLineLength''
               (js ''Line length '' @ showNat (length lineStr) @ js '' exceeds maximum '' @ numText maxLen)
               (severityOr cfg ''layout.maxLineLength'' ''warning'')]
          else [])
     @ (if truthyN (indentation rules) \<and> noTabs rules then
          (if includesStr lineStr [9] then
             [mk (path c) (index + 1) ''layout.noTabs''
                (js ''Use spaces instead of tabs for indentation'') ''error'']
           else [])
        else [])
     @ (if noTrailingWhitespace rules \<and> exec trailingWhitespacePattern lineStr 0 \<noteq> None then
          [mk (path c) (index + 1) ''layout.noTrailingWhitespace''
             (js ''Remove trailing whitespace'') ''warning'']
        else [])"

lemma checkLine_emit:
  "checkLine cfg rules c (index, lineStr) g = fold emit (lineFindings cfg rules c index lineStr) g"
  unfolding checkLine_def lineFindings_def Let_def addIssue_mk
  by (simp add: fold_emit_if fold_emit_case del: not_None_eq
      cong: if_cong option.case_cong split del: if_split)

definition layoutFindings :: "config \<Rightarrow> contract \<Rightarrow> jstring list \<Rightarrow> finding list" where
  "layoutFindings cfg c lines =
     (case cat_layout (RULES cfg) of
        None \<Rightarrow> []
      | Some rules \<Rightarrow>
          concat (map (\<lambda>(index, lineStr). lineFindings cfg rules c index lineStr) (enumerate 0 lines)))"

lemma checkLayout_emit:
  "checkLayout cfg c content lines g = fold emit (layoutFindings cfg c lines) g"
proof (cases "cat_layout (RULES cfg)")
  case None
  then show ?thesis by (simp add: checkLayout_def layoutFindings_def)
next
  case (Some rules)
  have "fold (checkLine cfg rules c) xs g =
      fold emit (concat (map (\<lambda>(index, lineStr). lineFindings cfg rules c index lineStr) xs)) g" for xs
    by (rule fold_body_emit) (auto simp: checkLine_emit)
  with Some show ?thesis by (simp add: checkLayout_def layoutFindings_def)
qed

definition structureFindings :: "config \<Rightarrow> contract \<Rightarrow> jstring \<Rightarrow> jstring list \<Rightarrow> finding list" where
  "structureFindings cfg c content lines =
     (case cat_structure (RULES cfg) of
        None \<Rightarrow> []
      | Some rules \<Rightarrow>
          (if spdxLicense rules then
             (if exec spdxPattern content 0 = None then
                [mk (path c) 1 ''structure.spdxLicense'' (js ''Missing SPDX license identifier'')
                   (severityOr cfg ''structure.spdxLicense'' ''error'')]
              else if spdxAtTop rules \<and> 0 < length lines then
                (if \<not> includesStr (trim (lines ! 0)) (js ''SPDX-License-Identifier:'') then
                   [mk (path c) 1 ''structure.spdxAtTop''
                      (js ''SPDX license should be on first line'') ''warning'']
                 else [])
              else [])
           else [])
          @ (if pragmaAfterLicense rules then
               (case findIndex (\<lambda>l. startsWith (trim l) (js ''pragma solidity'')) lines of
                  None \<Rightarrow> []
                | Some pragmaIdx \<Rightarrow>
                    (case findIndex (\<lambda>l. includesStr l (js ''SPDX-License-Identifier:'')) lines of
                       None \<Rightarrow> []
                     | Some spdxIdx \<Rightarrow>
                         if pragmaIdx < spdxIdx then
                           [mk (path c) (pragmaIdx + 1) ''structure.pragmaAfterLicense''
                              (js ''Pragma should come after SPDX license'') ''warning'']
                         else []))
             else []))"

lemma checkFileStructure_emit:
  "checkFileStructure cfg c content lines g = fold emit (structureFindings cfg c content lines) g"
  unfolding checkFileStructure_def structureFindings_def Let_def addIssue_mk
  by (simp add: fold_emit_if fold_emit_case del: not_None_eq
      cong: if_cong option.case_cong split del: if_split)

definition importFindings ::
  "imports_rules \<Rightarrow> contract \<Rightarrow> (jstring \<times> nat) list \<Rightarrow> nat \<Rightarrow> jstring \<Rightarrow> nat \<Rightarrow> finding list" where
  "importFindings rules c imps index lineStr lineNumber =
     (if namedOnly rules \<and> \<not> test namedImportPattern lineStr then
        [mk (path c) lineNumber ''imports.namedOnly''
           (js ''Use named imports: import {Contract} from '' @ [34] @ js ''./file.sol'' @ [34])
           ''warning'']
      else [])
     @ (if alphabetical rules \<and> 0 < index then
          (if outOfOrder (extractImportPath lineStr) (extractImportPath (fst (imps ! (index - 1)))) then
             [mk (path c) lineNumber ''imports.alphabetical''
                (js ''Imports should be alphabetically ordered'') ''warning'']
           else [])
        else [])"

lemma checkImport_emit:
  "checkImport rules c imps (index, (lineStr, lineNumber)) g =
   fold emit (importFindings rules c imps index lineStr lineNumber) g"
  unfolding checkImport_def importFindings_def Let_def addIssue_mk
  by (simp add: fold_emit_if fold_emit_case del: not_None_eq
      cong: if_cong option.case_cong split del: if_split)

definition importsFindings :: "config \<Rightarrow> contract \<Rightarrow> jstring list \<Rightarrow> finding list" where
  "importsFindings cfg c lines =
     (case cat_imports (RULES cfg) of
        None \<Rightarrow> []
      | Some rules \<Rightarrow>
          concat (map (\<lambda>(index, (lineStr, lineNumber)).
                    importFindings rules c (collectImports lines) index lineStr lineNumber)
            (enumerate 0 (collectImports lines))))"

lemma checkImports_emit:
  "checkImports cfg c content lines g = fold emit (importsFindings cfg c lines) g"
proof (cases "cat_imports (RULES cfg)")
  case None
  then show ?thesis by (simp add: checkImports_def importsFindings_def)
next
  case (Some rules)
  have "fold (checkImport rules c imps) xs g =
      fold emit (concat (map (\<lambda>(index, (lineStr, lineNumber)).
        importFindings rules c imps index lineStr lineNumber) xs)) g" for xs imps
    by (rule fold_body_emit) (auto simp: checkImport_emit)
  with Some show ?thesis by (simp add: checkImports_def importsFindings_def Let_def)
qed

definition contractFindings ::
  "config \<Rightarrow> naming_rules \<Rightarrow> contract \<Rightarrow> jstring \<Rightarrow> rmatch \<Rightarrow> finding list" where
  "contractFindings cfg rules c content m =
     (if contracts rules = Some ''CapWords'' \<and> \<not> isCapWords (grp m 2) then
        [mk (path c) (lineNumberAt content (m_index m)) ''naming.contracts''
           (js ''Contract name '' @ [39] @ grp m 2 @ [39] @ js '' should use CapWords style'')
           (severityOr cfg ''naming.contracts'' ''error'')]
      else [])"

lemma checkContractMatch_emit:
  "checkContractMatch cfg rules c content m g = fold emit (contractFindings cfg rules c content m) g"
  unfolding checkContractMatch_def contractFindings_def Let_def addIssue_mk
  by (simp add: fold_emit_if del: not_None_eq cong: if_cong split del: if_split)

definition argumentFindings :: "contract \<Rightarrow> nat \<Rightarrow> jstring \<Rightarrow> finding list" where
  "argumentFindings c lineNumber arg =
     (if arg \<noteq> [] then
        (case exec argNamePattern arg 0 of
           None \<Rightarrow> []
         | Some argNameMatch \<Rightarrow>
             if grp argNameMatch 1 \<in> set (map js [''memory'', ''storage'', ''calldata'']) then []
             else if \<not> isUnderscoreMixedCase (grp argNameMatch 1) then
               [mk (path c) lineNumber ''naming.functionArguments''
                  (js ''Function argument '' @ [39] @ grp argNameMatch 1 @ [39]
                     @ js '' should use _underscoreMixedCase style'')
                  ''error'']
             else [])
      else [])"

lemma checkArgument_emit:
  "checkArgument c lineNumber arg g = fold emit (argumentFindings c lineNumber arg) g"
  unfolding checkArgument_def argumentFindings_def Let_def addIssue_mk
  by (simp add: fold_emit_if fold_emit_case del: not_None_eq
      cong: if_cong option.case_cong split del: if_split)

lemma fold_checkArgument:
  "fold (checkArgument c n) args g = fold emit (concat (map (argumentFindings c n) args)) g"
  by (rule fold_body_emit) (rule checkArgument_emit)

definition functionFindings ::
  "config \<Rightarrow> naming_rules \<Rightarrow> contract \<Rightarrow> jstring \<Rightarrow> rmatch \<Rightarrow> finding list" where
  "functionFindings cfg rules c content m =
     (if grp m 1 \<in> set (map js [''constructor'', ''receive'', ''fallback'']) then []
      else
        (if privateInternalFunctions rules = Some ''_underscoreMixedCase'' then
           (if (resolveVisibility (grp m 3) = js ''private'' \<or> resolveVisibility (grp m 3) = js ''internal'')
               \<and> \<not> isUnderscoreMixedCase (grp m 1) then
              [mk (path c) (lineNumberAt content (m_index m)) ''naming.privateInternalFunctions''
                 (resolveVisibility (grp m 3) @ js '' function '' @ [39] @ grp m 1 @ [39]
                    @ js '' should use _underscoreMixedCase style'')
                 ''error'']
            else [])
         else [])
        @ (if functionsStyle rules = Some ''mixedCase'' then
             (if \<not> ((resolveVisibility (grp m 3) = js ''private'' \<or> resolveVisibility (grp m 3) = js ''internal'')
                     \<and> privateInternalFunctions rules = Some ''_underscoreMixedCase'')
                 \<and> \<not> isMixedCase (grp m 1) then
                [mk (path c) (lineNumberAt content (m_index m)) ''naming.functions''
                   (js ''Function name '' @ [39] @ grp m 1 @ [39] @ js '' should use mixedCase style'')
                   (severityOr cfg ''naming.functions'' ''error'')]
              else [])
           else [])
        @ (if functionArguments rules = Some ''_underscoreMixedCase'' \<and> trim (grp m 2) \<noteq> [] then
             concat (map (argumentFindings c (lineNumberAt content (m_index m)))
               (map trim (split 44 (grp m 2))))
           else []))"

lemma checkFunctionMatch_emit:
  "checkFunctionMatch cfg rules c content m g = fold emit (functionFindings cfg rules c content m) g"
  unfolding checkFunctionMatch_def functionFindings_def Let_def addIssue_mk fold_checkArgument
  by (simp add: fold_emit_if del: not_None_eq set_simps list.map
      cong: if_cong split del: if_split)

definition eventFindings :: "naming_rules \<Rightarrow> contract \<Rightarrow> jstring \<Rightarrow> rmatch \<Rightarrow> finding list" where
  "eventFindings rules c content m =
     (if events rules = Some ''CapWords'' \<and> \<not> isCapWords (grp m 1) then
        [mk (path c) (lineNumberAt content (m_index m)) ''naming.events''
           (js ''Event name '' @ [39] @ grp m 1 @ [39] @ js '' should use CapWords style'')
           ''error'']
      else [])
     @ (if eventsPastTense rules \<and> \<not> isPastTense (grp m 1) then
          [mk (path c) (lineNumberAt content (m_index m)) ''naming.eventsPastTense''
             (js ''Event name '' @ [39] @ grp m 1 @ [39]
                @ js '' should be past tense (e.g., '' @ [39] @ js ''OwnerUpdated'' @ [39]
                @ js '' not '' @ [39] @ js ''OwnerUpdate'' @ [39] @ js '')'')
             ''info'']
        else [])"

lemma checkEventMatch_emit:
  "checkEventMatch rules c content m g = fold emit (eventFindings rules c content m) g"
  unfolding checkEventMatch_def eventFindings_def Let_def addIssue_mk
  by (simp add: fold_emit_if del: not_None_eq cong: if_cong split del: if_split)

definition constantFindings :: "naming_rules \<Rightarrow> contract \<Rightarrow> jstring \<Rightarrow> rmatch \<Rightarrow> finding list" where
  "constantFindings rules c content m =
     (if constants rules = Some ''UPPER_CASE'' \<and> \<not> isUpperCase (grp m 1) then
        [mk (path c) (lineNumberAt content (m_index m)) ''naming.constants''
           (js ''Constant '' @ [39] @ grp m 1 @ [39]
              @ js '' should use UPPER_CASE_WITH_UNDERSCORES style'')
           ''error'']
      else [])"

lemma checkConstantMatch_emit:
  "checkConstantMatch rules c content m g = fold emit (constantFindings rules c content m) g"
  unfolding checkConstantMatch_def constantFindings_def Let_def addIssue_mk
  by (simp add: fold_emit_if del: not_None_eq cong: if_cong split del: if_split)

definition allMatches :: "re list \<Rightarrow> jstring \<Rightarrow> rmatch list" where
  "allMatches p s = (case execAll p s 0 of None \<Rightarrow> [] | Some ms \<Rightarrow> ms)"

lemma forEachMatch_emit:
  assumes "0 < sum_list (map minLen p)" and "\<And>m g. body m g = fold emit (F m) g"
  shows "forEachMatch p content body g = Some (fold emit (concat (map F (allMatches p content))) g)"
proof -
  from execAll_total [OF assms(1), of content 0] obtain ms where ms: "execAll p content 0 = Some ms"
    by auto
  have "fold body ms g = fold emit (concat (map F ms)) g"
    by (rule fold_body_emit) (rule assms(2))
  with ms show ?thesis by (simp add: forEachMatch_def allMatches_def)
qed

definition namingFindings :: "config \<Rightarrow> contract \<Rightarrow> jstring \<Rightarrow> finding list" where
  "namingFindings cfg c content =
     (case cat_naming (RULES cfg) of
        None \<Rightarrow> []
      | Some rules \<Rightarrow>
          (if truthyS (contracts rules) then
             concat (map (contractFindings cfg rules c content) (allMatches contractPattern content))
           else [])
          @ (if truthyS (functionsStyle rules) \<or> truthyS (functionArguments rules)
                \<or> truthyS (privateInternalFunctions rules) then
               concat (map (functionFindings cfg rules c content) (allMatches functionPattern content))
             else [])
          @ (if truthyS (events rules) then
               concat (map (eventFindings rules c content) (allMatches eventPattern content))
             else [])
          @ (if truthyS (constants rules) then
               concat (map (constantFindings rules c content) (allMatches constantPattern content))
             else []))"

lemma checkNaming_emit:
  "checkNaming cfg c content lines g = Some (fold emit (namingFindings cfg c content) g)"
proof (cases "cat_naming (RULES cfg)")
  case None
  then show ?thesis by (simp add: checkNaming_def namingFindings_def)
next
  case (Some rules)
  have 1: "forEachMatch contractPattern content (checkContractMatch cfg rules c content) h =
      Some (fold emit (concat (map (contractFindings cfg rules c content)
        (allMatches contractPattern content))) h)" for h
    by (rule forEachMatch_emit) (simp_all add: contractPattern_def checkContractMatch_emit)
  have 2: "forEachMatch functionPattern content (checkFunctionMatch cfg rules c content) h =
      Some (fold emit (concat (map (functionFindings cfg rules c content)
        (allMatches functionPattern content))) h)" for h
    by (rule forEachMatch_emit) (simp_all add: functionPattern_def checkFunctionMatch_emit)
  have 3: "forEachMatch eventPattern content (checkEventMatch rules c content) h =
      Some (fold emit (concat (map (eventFindings rules c content)
        (allMatches eventPattern content))) h)" for h
    by (rule forEachMatch_emit) (simp_all add: eventPattern_def checkEventMatch_emit)
  have 4: "forEachMatch constantPattern content (checkConstantMatch rules c content) h =
      Some (fold emit (concat (map (constantFindings rules c content)
        (allMatches constantPattern content))) h)" for h
    by (rule forEachMatch_emit) (simp_all add: constantPattern_def checkConstantMatch_emit)
  from Some show ?thesis
    unfolding checkNaming_def namingFindings_def
    by (simp add: 1 2 3 4)
qed

definition fileFindings :: "config \<Rightarrow> contract \<Rightarrow> finding list" where
  "fileFindings cfg c =
     structureFindings cfg c (fileText c) (split 10 (fileText c))
     @ importsFindings cfg c (split 10 (fileText c))
     @ namingFindings cfg c (fileText c)
     @ layoutFindings cfg c (split 10 (fileText c))"

definition countFile :: "globals \<Rightarrow> globals" where
  "countFile g = g\<lparr>stats := (stats g)\<lparr>files := files (stats g) + 1\<rparr>\<rparr>"

lemma checkFile_emit:
  "checkFile cfg c g = Some (fold emit (fileFindings cfg c) (countFile g))"
  by (simp add: checkFile_def Let_def fileFindings_def countFile_def checkFileStructure_emit
      checkImports_emit checkNaming_emit checkLayout_emit)

lemma issues_countFile [simp]: "issues (countFile g) = issues g"
  by (simp add: countFile_def)

lemma checkFile_issues:
  "\<exists>g'. checkFile cfg c g = Some g' \<and> issues g' = issues g @ fileFindings cfg c"
  by (simp add: checkFile_emit)

lemma checkAll_issues:
  "\<exists>g'. checkAll cfg cs g = Some g' \<and> issues g' = issues g @ concat (map (fileFindings cfg) cs)"
proof (induction cs arbitrary: g)
  case Nil
  show ?case by simp
next
  case (Cons c cs)
  from checkFile_issues obtain g1 where 1: "checkFile cfg c g = Some g1"
    and 2: "issues g1 = issues g @ fileFindings cfg c" by blast
  from Cons.IH [of g1] 1 2 show ?case by auto
qed



text \<open>How many findings of a list have a given severity.\<close>

definition countSev :: "string \<Rightarrow> finding list \<Rightarrow> nat" where
  "countSev s fs = length (filter (\<lambda>f. severity f = s) fs)"

section \<open>Counters\<close>

lemma countSev_simps [simp]:
  "countSev s [] = 0"
  "countSev s (f # fs) = (if severity f = s then 1 else 0) + countSev s fs"
  "countSev s (fs @ fs') = countSev s fs + countSev s fs'"
  by (simp_all add: countSev_def)

lemma stats_emit:
  "errors (stats (emit f g)) = errors (stats g) + countSev ''error'' [f]"
  "warnings (stats (emit f g)) = warnings (stats g) + countSev ''warning'' [f]"
  "info (stats (emit f g)) = info (stats g) + countSev ''info'' [f]"
  "files (stats (emit f g)) = files (stats g)"
  by (simp_all add: emit_def addIssue_def Let_def)

lemma stats_fold_emit:
  "errors (stats (fold emit fs g)) = errors (stats g) + countSev ''error'' fs"
  "warnings (stats (fold emit fs g)) = warnings (stats g) + countSev ''warning'' fs"
  "info (stats (fold emit fs g)) = info (stats g) + countSev ''info'' fs"
  "files (stats (fold emit fs g)) = files (stats g)"
  by (induction fs arbitrary: g) (simp_all add: stats_emit)

lemma stats_countFile [simp]:
  "errors (stats (countFile g)) = errors (stats g)"
  "warnings (stats (countFile g)) = warnings (stats g)"
  "info (stats (countFile g)) = info (stats g)"
  by (simp_all add: countFile_def)

lemma checkAll_run:
  "\<exists>g'. checkAll cfg cs g = Some g' \<and>
        issues g' = issues g @ concat (map (fileFindings cfg) cs) \<and>
        errors (stats g') = errors (stats g) + countSev ''error'' (concat (map (fileFindings cfg) cs)) \<and>
        warnings (stats g') = warnings (stats g) + countSev ''warning'' (concat (map (fileFindings cfg) cs)) \<and>
        info (stats g') = info (stats g) + countSev ''info'' (concat (map (fileFindings cfg) cs))"
proof (induction cs arbitrary: g)
  case Nil
  show ?case by simp
next
  case (Cons c cs)
  let ?g1 = "fold emit (fileFindings cfg c) (countFile g)"
  have 1: "checkFile cfg c g = Some ?g1" by (rule checkFile_emit)
  from Cons.IH [of ?g1] obtain g' where 2: "checkAll cfg cs ?g1 = Some g'"
    and 3: "issues g' = issues ?g1 @ concat (map (fileFindings cfg) cs)"
    and 4: "errors (stats g') = errors (stats ?g1) + countSev ''error'' (concat (map (fileFindings cfg) cs))"
    and 5: "warnings (stats g') = warnings (stats ?g1) + countSev ''warning'' (concat (map (fileFindings cfg) cs))"
    and 6: "info (stats g') = info (stats ?g1) + countSev ''info'' (concat (map (fileFindings cfg) cs))"
    by blast
  from 1 2 have "checkAll cfg (c # cs) g = Some g'" by simp
  moreover from 3 have "issues g' = issues g @ concat (map (fileFindings cfg) (c # cs))" by simp
  moreover from 4 have "errors (stats g') = errors (stats g) + countSev ''error'' (concat (map (fileFindings cfg) (c # cs)))"
    by (simp add: stats_fold_emit)
  moreover from 5 have "warnings (stats g') = warnings (stats g) + countSev ''warning'' (concat (map (fileFindings cfg) (c # cs)))"
    by (simp add: stats_fold_emit)
  moreover from 6 have "info (stats g') = info (stats g) + countSev ''info'' (concat (map (fileFindings cfg) (c # cs)))"
    by (simp add: stats_fold_emit)
  ultimately show ?case by blast
qed

lemma countSev_pos: "0 < countSev s fs \<longleftrightarrow> (\<exists>f \<in> set fs. severity f = s)"
  by (induction fs) auto

lemma countSev_total:
  "(\<forall>f \<in> set fs. severity f = ''error'' \<or> severity f = ''warning'' \<or> severity f = ''info'') \<Longrightarrow>
   countSev ''error'' fs + countSev ''warning'' fs + countSev ''info'' fs = length fs"
  by (induction fs) auto

section \<open>A small run\<close>

text \<open>
  Only the contract-name rule is on, and the file is \<^verbatim>\<open>contract t {}\<close>: one finding of
  severity \<open>error\<close>, exit status 1.
\<close>

definition exampleConfig :: config where
  "exampleConfig =
     \<lparr>RULES = \<lparr>cat_structure = None, cat_imports = None,
        cat_naming = Some \<lparr>contracts = Some ''CapWords'', functionsStyle = None,
          functionArguments = None, privateInternalFunctions = None, events = None,
          eventsPastTense = False, constants = None\<rparr>,
        cat_layout = None\<rparr>,
      RULE_SEVERITY = Map.empty\<rparr>"

definition exampleContract :: contract where
  "exampleContract = \<lparr>path = js ''T.sol'', fileText = js ''contract t {}''\<rparr>"

lemmas regex_eval = test_def exec_def matchAt_def js_def ws_def quote_def notQuote_def run_def
  isSpace_def isLineTerminator_def isWordChar_def wordAt_def identStart_def identRest_def alnum_def grp_def

lemma example_run: "main exampleConfig [exampleContract] initial =
   Some (\<lparr>issues = [\<lparr>fileName = js ''T.sol'', line = 1, rule = ''naming.contracts'',
             message = js ''Contract name '' @ [39] @ js ''t'' @ [39] @ js '' should use CapWords style'',
             severity = ''error''\<rparr>],
           stats = \<lparr>files = 1, errors = 1, warnings = 0, info = 0, passed = 0\<rparr>\<rparr>, 1)"
  by (simp add: main_def exitStatus_def checkFile_def checkFileStructure_def checkImports_def checkNaming_def checkLayout_def
      exampleConfig_def exampleContract_def initial_def Let_def truthyS_def forEachMatch_def execAll.simps
      contractPattern_def checkContractMatch_def isCapWords_def severityOr_def addIssue_def lineNumberAt_def regex_eval)
lemma main_run:
  "\<exists>g'. main cfg cs g = Some (g', exitStatus g') \<and>
        issues g' = issues g @ concat (map (fileFindings cfg) cs) \<and>
        errors (stats g') = errors (stats g) + countSev ''error'' (concat (map (fileFindings cfg) cs)) \<and>
        warnings (stats g') = warnings (stats g) + countSev ''warning'' (concat (map (fileFindings cfg) cs)) \<and>
        info (stats g') = info (stats g) + countSev ''info'' (concat (map (fileFindings cfg) cs))"
proof -
  from checkAll_run [of cfg cs g] obtain g' where c: "checkAll cfg cs g = Some g'"
    and r: "issues g' = issues g @ concat (map (fileFindings cfg) cs)"
      "errors (stats g') = errors (stats g) + countSev ''error'' (concat (map (fileFindings cfg) cs))"
      "warnings (stats g') = warnings (stats g) + countSev ''warning'' (concat (map (fileFindings cfg) cs))"
      "info (stats g') = info (stats g) + countSev ''info'' (concat (map (fileFindings cfg) cs))"
    by blast
  from c have "main cfg cs g = Some (g', exitStatus g')" by (simp add: main_def)
  with r show ?thesis by blast
qed

text \<open>The number of findings is the sum of the three severity counters.\<close>

definition countersAgree :: "globals \<Rightarrow> bool" where
  "countersAgree g =
     (length (issues g) = errors (stats g) + warnings (stats g) + info (stats g))"

section \<open>Exit status and counters\<close>

text \<open>
  C1. Whenever the error counter agrees with the findings at the start of a run (as it does
  in the initial state), the run returns, and at its end \<open>stats.errors > 0\<close> holds
  exactly when some finding has severity \<open>error\<close>; the exit status is non-zero exactly
  when \<open>stats.errors > 0\<close>; and adding a finding of any other severity leaves the exit
  status as it was.
\<close>

theorem exit_status_iff_error_finding:
  assumes "errors (stats g) = length (filter (\<lambda>f. severity f = ''error'') (issues g))"
  shows "\<exists>g' status. main cfg cs g = Some (g', status)
      \<and> (0 < errors (stats g') \<longleftrightarrow> (\<exists>f \<in> set (issues g'). severity f = ''error''))
      \<and> (status \<noteq> 0 \<longleftrightarrow> 0 < errors (stats g'))
      \<and> (\<forall>h f l r m sev. sev \<noteq> ''error'' \<longrightarrow>
            exitStatus (addIssue f l r m sev h) = exitStatus h)"
proof -
  let ?new = "concat (map (fileFindings cfg) cs)"
  from main_run [of cfg cs g] obtain g' where m: "main cfg cs g = Some (g', exitStatus g')"
    and i: "issues g' = issues g @ ?new"
    and e: "errors (stats g') = errors (stats g) + countSev ''error'' ?new"
    by blast
  from assms e i have "errors (stats g') = countSev ''error'' (issues g')"
    by (simp add: countSev_def)
  then have 1: "0 < errors (stats g') \<longleftrightarrow> (\<exists>f \<in> set (issues g'). severity f = ''error'')"
    by (simp add: countSev_pos)
  have 2: "exitStatus g' \<noteq> 0 \<longleftrightarrow> 0 < errors (stats g')"
    by (simp add: exitStatus_def)
  have 3: "\<forall>h f l r m sev. sev \<noteq> ''error'' \<longrightarrow>
      exitStatus (addIssue f l r m sev h) = exitStatus h"
    by (simp add: exitStatus_def addIssue_def Let_def)
  show ?thesis
    by (rule exI [of _ g'], rule exI [of _ "exitStatus g'"]) (intro conjI m 1 2 3)
qed

theorem exit_status_witness:
  "\<exists>g'. main exampleConfig [exampleContract] initial = Some (g', 1)
     \<and> 0 < errors (stats g') \<and> (\<exists>f \<in> set (issues g'). severity f = ''error'')"
proof -
  have "errors (stats initial) = length (filter (\<lambda>f. severity f = ''error'') (issues initial))"
    by (simp add: initial_def)
  from exit_status_iff_error_finding [OF this, of exampleConfig "[exampleContract]"]
  obtain g' where "\<exists>status. main exampleConfig [exampleContract] initial = Some (g', status)
      \<and> (0 < errors (stats g') \<longleftrightarrow> (\<exists>f \<in> set (issues g'). severity f = ''error''))
      \<and> (status \<noteq> 0 \<longleftrightarrow> 0 < errors (stats g'))
      \<and> (\<forall>h f l r m sev. sev \<noteq> ''error'' \<longrightarrow>
            exitStatus (addIssue f l r m sev h) = exitStatus h)" ..
  then obtain status where h: "main exampleConfig [exampleContract] initial = Some (g', status)
      \<and> (0 < errors (stats g') \<longleftrightarrow> (\<exists>f \<in> set (issues g'). severity f = ''error''))
      \<and> (status \<noteq> 0 \<longleftrightarrow> 0 < errors (stats g'))
      \<and> (\<forall>h f l r m sev. sev \<noteq> ''error'' \<longrightarrow>
            exitStatus (addIssue f l r m sev h) = exitStatus h)" ..
  from h have m: "main exampleConfig [exampleContract] initial = Some (g', status)"
    by (rule conjunct1)
  from h have 1: "0 < errors (stats g') \<longleftrightarrow> (\<exists>f \<in> set (issues g'). severity f = ''error'')"
    by (rule conjunct1 [OF conjunct2])
  from h have 2: "status \<noteq> 0 \<longleftrightarrow> 0 < errors (stats g')"
    by (rule conjunct1 [OF conjunct2 [OF conjunct2]])
  from m have "snd (the (main exampleConfig [exampleContract] initial)) = status" by simp
  then have s: "status = 1" by (simp only: example_run option.sel snd_conv)
  with 2 have e: "0 < errors (stats g')" by simp
  with 1 have b: "\<exists>f \<in> set (issues g'). severity f = ''error''" by simp
  from m s have "main exampleConfig [exampleContract] initial = Some (g', 1)" by simp
  with e b show ?thesis by (intro exI [of _ g'] conjI)
qed

text \<open>
  C9. The number of findings equals the sum of the three counters: \<open>addIssue\<close> with a
  severity among error, warning and info keeps the equation, and so does a whole run all of
  whose new findings have such a severity.
\<close>

theorem findings_total_equals_counters:
  assumes "countersAgree g"
  shows "(sev \<in> set [''error'', ''warning'', ''info''] \<longrightarrow> countersAgree (addIssue f l r m sev g))
     \<and> (\<exists>g' status. main cfg cs g = Some (g', status)
          \<and> ((\<forall>x \<in> set (drop (length (issues g)) (issues g')).
                  severity x \<in> set [''error'', ''warning'', ''info'']) \<longrightarrow> countersAgree g'))"
proof
  show "sev \<in> set [''error'', ''warning'', ''info''] \<longrightarrow> countersAgree (addIssue f l r m sev g)"
    using assms by (auto simp: countersAgree_def addIssue_def Let_def)
next
  let ?new = "concat (map (fileFindings cfg) cs)"
  from main_run [of cfg cs g] obtain g' where m: "main cfg cs g = Some (g', exitStatus g')"
    and i: "issues g' = issues g @ ?new"
    and e: "errors (stats g') = errors (stats g) + countSev ''error'' ?new"
    and w: "warnings (stats g') = warnings (stats g) + countSev ''warning'' ?new"
    and n: "info (stats g') = info (stats g) + countSev ''info'' ?new"
    by blast
  have "countersAgree g'"
    if "\<forall>x \<in> set (drop (length (issues g)) (issues g')). severity x \<in> set [''error'', ''warning'', ''info'']"
  proof -
    from that i have "\<forall>x \<in> set ?new. severity x = ''error'' \<or> severity x = ''warning'' \<or> severity x = ''info''"
      by simp
    from countSev_total [OF this] assms i e w n show ?thesis
      by (simp add: countersAgree_def)
  qed
  with m show "\<exists>g' status. main cfg cs g = Some (g', status)
          \<and> ((\<forall>x \<in> set (drop (length (issues g)) (issues g')).
                  severity x \<in> set [''error'', ''warning'', ''info'']) \<longrightarrow> countersAgree g')"
    by blast
qed

theorem findings_total_witness:
  "countersAgree initial
   \<and> countersAgree (addIssue (js ''T.sol'') 1 ''naming.contracts'' (js ''m'') ''error'' initial)
   \<and> (\<exists>g'. main exampleConfig [exampleContract] initial = Some (g', 1) \<and> countersAgree g')"
proof -
  have a: "countersAgree initial" by (simp add: countersAgree_def initial_def)
  note t = findings_total_equals_counters [OF a, of "''error''" "js ''T.sol''" 1
      "''naming.contracts''" "js ''m''" exampleConfig "[exampleContract]"]
  from conjunct1 [OF t]
  have b: "countersAgree (addIssue (js ''T.sol'') 1 ''naming.contracts'' (js ''m'') ''error'' initial)"
    by simp
  from conjunct2 [OF t] obtain g' where "\<exists>status. main exampleConfig [exampleContract] initial = Some (g', status)
          \<and> ((\<forall>x \<in> set (drop (length (issues initial)) (issues g')).
                  severity x \<in> set [''error'', ''warning'', ''info'']) \<longrightarrow> countersAgree g')" ..
  then obtain status where h: "main exampleConfig [exampleContract] initial = Some (g', status)
          \<and> ((\<forall>x \<in> set (drop (length (issues initial)) (issues g')).
                  severity x \<in> set [''error'', ''warning'', ''info'']) \<longrightarrow> countersAgree g')" ..
  from h have m: "main exampleConfig [exampleContract] initial = Some (g', status)"
    by (rule conjunct1)
  from m have "the (main exampleConfig [exampleContract] initial) = (g', status)" by simp
  then have gs: "(g', status) = (\<lparr>issues = [\<lparr>fileName = js ''T.sol'', line = 1, rule = ''naming.contracts'',
             message = js ''Contract name '' @ [39] @ js ''t'' @ [39] @ js '' should use CapWords style'',
             severity = ''error''\<rparr>],
           stats = \<lparr>files = 1, errors = 1, warnings = 0, info = 0, passed = 0\<rparr>\<rparr>, 1)"
    by (simp only: example_run option.sel)
  then have s: "status = 1" by simp
  from gs have "\<forall>x \<in> set (issues g'). severity x = ''error''" by simp
  then have "\<forall>x \<in> set (drop (length (issues initial)) (issues g')).
      severity x \<in> set [''error'', ''warning'', ''info'']"
    by (simp add: initial_def)
  with conjunct2 [OF h] have c: "countersAgree g'" by (rule mp)
  from m s have "main exampleConfig [exampleContract] initial = Some (g', 1)" by simp
  with c have "\<exists>g'. main exampleConfig [exampleContract] initial = Some (g', 1) \<and> countersAgree g'"
    by (intro exI [of _ g'] conjI)
  with a b show ?thesis by (intro conjI)
qed



section \<open>Rule identifiers, categories and severities\<close>

text \<open>The category of a rule identifier \<open>category.ruleName\<close>.\<close>

definition category :: "string \<Rightarrow> string" where
  "category r = takeWhile (\<lambda>ch. ch \<noteq> CHR ''.'') r"

text \<open>The rule identifiers each pass reports.\<close>

definition structureRuleIds :: "string list" where
  "structureRuleIds = [''structure.spdxLicense'', ''structure.spdxAtTop'', ''structure.pragmaAfterLicense'']"

definition importsRuleIds :: "string list" where
  "importsRuleIds = [''imports.namedOnly'', ''imports.alphabetical'']"

definition namingRuleIds :: "string list" where
  "namingRuleIds = [''naming.contracts'', ''naming.privateInternalFunctions'', ''naming.functions'',
     ''naming.functionArguments'', ''naming.events'', ''naming.eventsPastTense'', ''naming.constants'']"

definition layoutRuleIds :: "string list" where
  "layoutRuleIds = [''layout.maxLineLength'', ''layout.noTabs'', ''layout.noTrailingWhitespace'']"

lemma mk_sel [simp]:
  "fileName (mk f l r m s) = f" "line (mk f l r m s) = l" "rule (mk f l r m s) = r"
  "message (mk f l r m s) = m" "severity (mk f l r m s) = s"
  by (simp_all add: mk_def)

lemmas set_if = if_distrib [of set] option.case_distrib [of set]

lemma structure_rule:
  assumes "f \<in> set (structureFindings cfg c content lines)"
  shows "cat_structure (RULES cfg) \<noteq> None \<and> rule f \<in> set structureRuleIds"
  using assms
  by (auto simp: set_if structureFindings_def structureRuleIds_def
      split: option.splits if_splits)

lemma import_rule:
  assumes "f \<in> set (importFindings rules c imps index lineStr n)"
  shows "rule f \<in> set importsRuleIds"
  using assms
  by (auto simp: set_if importFindings_def importsRuleIds_def split: if_splits)

lemma imports_rule:
  assumes "f \<in> set (importsFindings cfg c lines)"
  shows "cat_imports (RULES cfg) \<noteq> None \<and> rule f \<in> set importsRuleIds"
  using assms import_rule [of f _ c "collectImports lines"]
  by (auto simp: set_if importsFindings_def split: option.splits)

lemma line_rule:
  assumes "f \<in> set (lineFindings cfg rules c index lineStr)"
  shows "rule f \<in> set layoutRuleIds"
  using assms
  by (auto simp: set_if lineFindings_def layoutRuleIds_def
      split: option.splits if_splits)

lemma layout_rule:
  assumes "f \<in> set (layoutFindings cfg c lines)"
  shows "cat_layout (RULES cfg) \<noteq> None \<and> rule f \<in> set layoutRuleIds"
  using assms line_rule [of f cfg _ c]
  by (auto simp: set_if layoutFindings_def split: option.splits)

lemma contract_rule:
  assumes "f \<in> set (contractFindings cfg rules c content m)"
  shows "rule f \<in> set namingRuleIds"
  using assms
  by (auto simp: set_if contractFindings_def namingRuleIds_def split: if_splits)

lemma argument_rule:
  assumes "f \<in> set (argumentFindings c n arg)"
  shows "rule f \<in> set namingRuleIds"
  using assms
  by (auto simp: set_if argumentFindings_def namingRuleIds_def
      split: if_splits option.splits)

lemma function_rule:
  assumes "f \<in> set (functionFindings cfg rules c content m)"
  shows "rule f \<in> set namingRuleIds"
proof -
  from assms consider
      (a) "f = mk (path c) (lineNumberAt content (m_index m)) ''naming.privateInternalFunctions''
                 (resolveVisibility (grp m 3) @ js '' function '' @ [39] @ grp m 1 @ [39]
                    @ js '' should use _underscoreMixedCase style'') ''error''"
    | (b) "f = mk (path c) (lineNumberAt content (m_index m)) ''naming.functions''
                   (js ''Function name '' @ [39] @ grp m 1 @ [39] @ js '' should use mixedCase style'')
                   (severityOr cfg ''naming.functions'' ''error'')"
    | (c) arg where "f \<in> set (argumentFindings c (lineNumberAt content (m_index m)) arg)"
    unfolding functionFindings_def
    by (auto simp: set_if split: if_splits)
  then show ?thesis
  proof cases
    case a
    then show ?thesis by (simp add: namingRuleIds_def)
  next
    case b
    then show ?thesis by (simp add: namingRuleIds_def)
  next
    case c
    then show ?thesis by (rule argument_rule)
  qed
qed

lemma event_rule:
  assumes "f \<in> set (eventFindings rules c content m)"
  shows "rule f \<in> set namingRuleIds"
  using assms
  by (auto simp: set_if eventFindings_def namingRuleIds_def split: if_splits)

lemma constant_rule:
  assumes "f \<in> set (constantFindings rules c content m)"
  shows "rule f \<in> set namingRuleIds"
  using assms
  by (auto simp: set_if constantFindings_def namingRuleIds_def split: if_splits)

lemma naming_rule:
  assumes "f \<in> set (namingFindings cfg c content)"
  shows "cat_naming (RULES cfg) \<noteq> None \<and> rule f \<in> set namingRuleIds"
proof (cases "cat_naming (RULES cfg)")
  case None
  with assms show ?thesis by (simp add: namingFindings_def)
next
  case (Some rules)
  with assms consider
      (a) m where "f \<in> set (contractFindings cfg rules c content m)"
    | (b) m where "f \<in> set (functionFindings cfg rules c content m)"
    | (c) m where "f \<in> set (eventFindings rules c content m)"
    | (d) m where "f \<in> set (constantFindings rules c content m)"
    unfolding namingFindings_def by (auto simp: set_if split: if_splits)
  then have "rule f \<in> set namingRuleIds"
    by cases (rule contract_rule function_rule event_rule constant_rule, assumption)+
  with Some show ?thesis by simp
qed

lemma category_ids:
  "r \<in> set structureRuleIds \<Longrightarrow> category r = ''structure''"
  "r \<in> set importsRuleIds \<Longrightarrow> category r = ''imports''"
  "r \<in> set namingRuleIds \<Longrightarrow> category r = ''naming''"
  "r \<in> set layoutRuleIds \<Longrightarrow> category r = ''layout''"
  by (auto simp: category_def structureRuleIds_def importsRuleIds_def namingRuleIds_def
      layoutRuleIds_def)

lemma file_rule:
  assumes "f \<in> set (fileFindings cfg c)"
  shows "cat_structure (RULES cfg) \<noteq> None \<and> category (rule f) = ''structure''
        \<or> cat_imports (RULES cfg) \<noteq> None \<and> category (rule f) = ''imports''
        \<or> cat_naming (RULES cfg) \<noteq> None \<and> category (rule f) = ''naming''
        \<or> cat_layout (RULES cfg) \<noteq> None \<and> category (rule f) = ''layout''"
proof -
  from assms consider
      (s) "f \<in> set (structureFindings cfg c (fileText c) (split 10 (fileText c)))"
    | (i) "f \<in> set (importsFindings cfg c (split 10 (fileText c)))"
    | (n) "f \<in> set (namingFindings cfg c (fileText c))"
    | (l) "f \<in> set (layoutFindings cfg c (split 10 (fileText c)))"
    by (auto simp: fileFindings_def)
  then show ?thesis
  proof cases
    case s
    from structure_rule [OF s] show ?thesis by (simp add: category_ids)
  next
    case i
    from imports_rule [OF i] show ?thesis by (simp add: category_ids)
  next
    case n
    from naming_rule [OF n] show ?thesis by (simp add: category_ids)
  next
    case l
    from layout_rule [OF l] show ?thesis by (simp add: category_ids)
  qed
qed

lemma main_findings:
  "\<exists>g'. main cfg cs g = Some (g', exitStatus g')
     \<and> drop (length (issues g)) (issues g') = concat (map (fileFindings cfg) cs)"
proof -
  from main_run [of cfg cs g] obtain g' where "main cfg cs g = Some (g', exitStatus g')"
    and "issues g' = issues g @ concat (map (fileFindings cfg) cs)"
    by blast
  then show ?thesis by (intro exI [of _ g']) simp
qed

text \<open>
  C3. A run returns, and every finding it adds belongs to one of the four categories and
  never to a category that is missing from \<open>RULES\<close>: for any files and any configuration,
  a disabled category has no finding.
\<close>

theorem disabled_category_emits_nothing:
  "\<exists>g' status. main cfg cs g = Some (g', status)
     \<and> (\<forall>f \<in> set (drop (length (issues g)) (issues g')).
           category (rule f) \<in> set [''structure'', ''imports'', ''naming'', ''layout'']
         \<and> (cat_structure (RULES cfg) = None \<longrightarrow> category (rule f) \<noteq> ''structure'')
         \<and> (cat_imports (RULES cfg) = None \<longrightarrow> category (rule f) \<noteq> ''imports'')
         \<and> (cat_naming (RULES cfg) = None \<longrightarrow> category (rule f) \<noteq> ''naming'')
         \<and> (cat_layout (RULES cfg) = None \<longrightarrow> category (rule f) \<noteq> ''layout''))"
proof -
  from main_findings [of cfg cs g] obtain g' where m: "main cfg cs g = Some (g', exitStatus g')"
    and d: "drop (length (issues g)) (issues g') = concat (map (fileFindings cfg) cs)"
    by blast
  have "category (rule f) \<in> set [''structure'', ''imports'', ''naming'', ''layout'']
         \<and> (cat_structure (RULES cfg) = None \<longrightarrow> category (rule f) \<noteq> ''structure'')
         \<and> (cat_imports (RULES cfg) = None \<longrightarrow> category (rule f) \<noteq> ''imports'')
         \<and> (cat_naming (RULES cfg) = None \<longrightarrow> category (rule f) \<noteq> ''naming'')
         \<and> (cat_layout (RULES cfg) = None \<longrightarrow> category (rule f) \<noteq> ''layout'')"
    if "f \<in> set (drop (length (issues g)) (issues g'))" for f
  proof -
    from that d obtain c where "f \<in> set (fileFindings cfg c)" by auto
    from file_rule [OF this] show ?thesis by auto
  qed
  with m show ?thesis by blast
qed


theorem disabled_category_witness:
  "\<exists>g' status. main exampleConfig [exampleContract] initial = Some (g', status)
     \<and> issues g' \<noteq> []
     \<and> list_all (\<lambda>f. category (rule f) \<noteq> ''structure'' \<and> category (rule f) \<noteq> ''imports''
            \<and> category (rule f) \<noteq> ''layout'') (issues g')"
proof -
  from disabled_category_emits_nothing [of exampleConfig "[exampleContract]" initial]
  obtain g' status where m: "main exampleConfig [exampleContract] initial = Some (g', status)"
    and a: "\<forall>f \<in> set (issues g').
        category (rule f) \<noteq> ''structure'' \<and> category (rule f) \<noteq> ''imports''
        \<and> category (rule f) \<noteq> ''layout''"
    by (fastforce simp: exampleConfig_def initial_def)
  from m have "fst (the (main exampleConfig [exampleContract] initial)) = g'" by simp
  then have "issues g' \<noteq> []" by (simp only: example_run option.sel fst_conv) auto
  with m a show ?thesis by (intro exI [of _ g'] exI [of _ status]) (simp add: list_all_iff)
qed





text \<open>An unnamed import, with a severity for its rule in \<open>RULE_SEVERITY\<close>.\<close>

definition severityConfig :: config where
  "severityConfig =
     \<lparr>RULES = \<lparr>cat_structure = None,
        cat_imports = Some \<lparr>namedOnly = True, alphabetical = True\<rparr>,
        cat_naming = None, cat_layout = None\<rparr>,
      RULE_SEVERITY = [''imports.namedOnly'' \<mapsto> ''error'']\<rparr>"

definition plainImport :: contract where
  "plainImport = \<lparr>path = js ''T.sol'', fileText = js ''import '' @ [34] @ js ''./a.sol'' @ [34] @ js '';''\<rparr>"

text \<open>
  C6. The severity of an \<open>imports.namedOnly\<close> finding is not read from \<open>RULE_SEVERITY\<close>:
  with \<open>RULE_SEVERITY['imports.namedOnly'] = 'error'\<close> the finding for the unnamed import
  \<^verbatim>\<open>import "./a.sol";\<close> still has severity \<open>warning\<close>, and the exit status is 0.
\<close>

theorem named_import_severity_ignores_map:
  "RULE_SEVERITY severityConfig ''imports.namedOnly'' = Some ''error''
   \<and> main severityConfig [plainImport] initial =
       Some (\<lparr>issues = [\<lparr>fileName = js ''T.sol'', line = 1, rule = ''imports.namedOnly'',
                 message = js ''Use named imports: import {Contract} from '' @ [34] @ js ''./file.sol'' @ [34],
                 severity = ''warning''\<rparr>],
               stats = \<lparr>files = 1, errors = 0, warnings = 1, info = 0, passed = 0\<rparr>\<rparr>, 0)"
  by (simp add: main_def exitStatus_def checkFile_def checkFileStructure_def checkImports_def
      checkNaming_def checkLayout_def severityConfig_def plainImport_def initial_def Let_def
      collectImports_def checkImport_def startsWith_def trim_def enumerate_eq_zip
      namedImportPattern_def addIssue_def regex_eval)

section \<open>The SPDX findings of the structure pass\<close>

lemma scan_None_all: "scan p s is = None \<Longrightarrow> i \<in> set is \<Longrightarrow> matchAt p s i = None"
  by (induction "is") (auto split: option.splits)

lemma exec_Lit_sub:
  assumes "exec [Lit w] s 0 \<noteq> None"
  shows "\<exists>pre post. s = pre @ js w @ post"
proof -
  from assms obtain m where "exec [Lit w] s 0 = Some m" by auto
  then obtain i where "matchAt [Lit w] s i = Some m"
    by (auto simp: exec_def dest!: scan_Some)
  then have "prefix (js w) (drop i s)"
    by (auto simp: matchAt_def split: list.splits if_splits)
  then obtain post where "drop i s = js w @ post" by (auto simp: prefix_def)
  then have "s = take i s @ js w @ post"
    by (metis append_take_drop_id)
  then show ?thesis by blast
qed

lemma new_checkFileStructure:
  "drop (length (issues g)) (issues (checkFileStructure cfg c content lines g)) =
   structureFindings cfg c content lines"
  by (simp add: checkFileStructure_emit)

text \<open>
  C10. Of the findings the structure pass adds for a file, at most one has the rule
  \<open>structure.spdxLicense\<close> or \<open>structure.spdxAtTop\<close>; a \<open>structure.spdxAtTop\<close> finding
  is only added when the text contains \<open>SPDX-License-Identifier:\<close>; and both kinds of
  finding have line number 1.
\<close>

theorem spdx_findings_exclusive:
  "length (filter (\<lambda>f. rule f = ''structure.spdxLicense'' \<or> rule f = ''structure.spdxAtTop'')
      (drop (length (issues g)) (issues (checkFileStructure cfg c content lines g)))) \<le> 1
   \<and> (\<forall>f \<in> set (drop (length (issues g)) (issues (checkFileStructure cfg c content lines g))).
        (rule f = ''structure.spdxAtTop'' \<longrightarrow>
           (\<exists>pre post. content = pre @ js ''SPDX-License-Identifier:'' @ post))
      \<and> (rule f = ''structure.spdxLicense'' \<or> rule f = ''structure.spdxAtTop'' \<longrightarrow> line f = 1))"
proof (cases "cat_structure (RULES cfg)")
  case None
  then show ?thesis by (simp add: new_checkFileStructure structureFindings_def)
next
  case (Some rules)
  show ?thesis
  proof (cases "exec spdxPattern content 0 = None")
    case True
    with Some show ?thesis
      by (auto simp: new_checkFileStructure structureFindings_def set_if
          split: option.splits if_splits)
  next
    case False
    then have "\<exists>pre post. content = pre @ js ''SPDX-License-Identifier:'' @ post"
      unfolding spdxPattern_def by (rule exec_Lit_sub)
    with Some False show ?thesis
      by (auto simp: new_checkFileStructure structureFindings_def set_if
          split: option.splits if_splits)
  qed
qed

text \<open>A file whose license comment is on its second line.\<close>

definition spdxConfig :: config where
  "spdxConfig =
     \<lparr>RULES = \<lparr>cat_structure = Some \<lparr>spdxLicense = True, spdxAtTop = True, pragmaAfterLicense = False\<rparr>,
        cat_imports = None, cat_naming = None, cat_layout = None\<rparr>,
      RULE_SEVERITY = Map.empty\<rparr>"

definition lateLicense :: contract where
  "lateLicense = \<lparr>path = js ''T.sol'',
     fileText = js ''pragma solidity 0.8.0;'' @ [10] @ js ''// SPDX-License-Identifier: MIT''\<rparr>"

lemma lateLicense_run:
  "issues (checkFileStructure spdxConfig lateLicense (fileText lateLicense)
      (split 10 (fileText lateLicense)) initial) =
   [\<lparr>fileName = js ''T.sol'', line = 1, rule = ''structure.spdxAtTop'',
      message = js ''SPDX license should be on first line'', severity = ''warning''\<rparr>]"
  by (simp add: checkFileStructure_def spdxConfig_def lateLicense_def initial_def Let_def
      spdxPattern_def trim_def addIssue_def regex_eval)

theorem spdx_findings_witness:
  "map rule (issues (checkFileStructure spdxConfig lateLicense (fileText lateLicense)
      (split 10 (fileText lateLicense)) initial)) = [''structure.spdxAtTop'']
   \<and> (\<exists>pre post. fileText lateLicense = pre @ js ''SPDX-License-Identifier:'' @ post)
   \<and> map line (issues (checkFileStructure spdxConfig lateLicense (fileText lateLicense)
      (split 10 (fileText lateLicense)) initial)) = [1]"
proof -
  let ?g = "checkFileStructure spdxConfig lateLicense (fileText lateLicense)
      (split 10 (fileText lateLicense)) initial"
  let ?f = "\<lparr>fileName = js ''T.sol'', line = 1, rule = ''structure.spdxAtTop'',
      message = js ''SPDX license should be on first line'', severity = ''warning''\<rparr>"
  have i: "issues ?g = [?f]" by (rule lateLicense_run)
  then have "?f \<in> set (drop (length (issues initial)) (issues ?g))"
    by (simp add: initial_def)
  with conjunct2 [OF spdx_findings_exclusive [of initial spdxConfig lateLicense
      "fileText lateLicense" "split 10 (fileText lateLicense)"]]
  have "(rule ?f = ''structure.spdxAtTop'' \<longrightarrow>
           (\<exists>pre post. fileText lateLicense = pre @ js ''SPDX-License-Identifier:'' @ post))
      \<and> (rule ?f = ''structure.spdxLicense'' \<or> rule ?f = ''structure.spdxAtTop'' \<longrightarrow> line ?f = 1)"
    by (rule bspec)
  then have "\<exists>pre post. fileText lateLicense = pre @ js ''SPDX-License-Identifier:'' @ post"
    by simp
  with i show ?thesis by simp
qed

section \<open>The two function-name rules\<close>

text \<open>The findings that lead from the globals \<open>g\<close> to \<open>g'\<close>.\<close>

definition added :: "globals \<Rightarrow> globals \<Rightarrow> finding list" where
  "added g g' = drop (length (issues g)) (issues g')"

lemma added_fold_emit [simp]: "added g (fold emit fs g) = fs"
  by (simp add: added_def)

lemma argument_rule_id:
  assumes "f \<in> set (argumentFindings c n arg)"
  shows "rule f = ''naming.functionArguments''"
  using assms
  by (auto simp: set_if argumentFindings_def split: if_splits option.splits)

lemma filter_arguments:
  assumes "r \<noteq> ''naming.functionArguments''"
  shows "filter (\<lambda>f. rule f = r) (concat (map (argumentFindings c n \<circ> k) args)) = []"
  using assms by (auto simp: filter_empty_conv dest!: argument_rule_id)

definition isSpecialFunction :: "jstring \<Rightarrow> bool" where
  "isSpecialFunction name = (name \<in> set (map js [''constructor'', ''receive'', ''fallback'']))"

definition privateOrInternal :: "jstring \<Rightarrow> bool" where
  "privateOrInternal tail =
     (resolveVisibility tail = js ''private'' \<or> resolveVisibility tail = js ''internal'')"

text \<open>
  C2. For one match of the function pattern, whatever it captured: the loop body adds one
  \<open>naming.privateInternalFunctions\<close> finding exactly when the name is not constructor,
  receive or fallback, the underscore rule is on, the resolved visibility is private or
  internal and the name is not \<open>_underscoreMixedCase\<close>; it adds one \<open>naming.functions\<close>
  finding exactly when the name is not special, the mixedCase rule is on, the underscore
  rule does not apply to the function and the name is not mixedCase. So it never adds
  both; a private function that fails the underscore rule gets exactly one
  \<open>naming.privateInternalFunctions\<close> finding and no \<open>naming.functions\<close> finding; and a
  tail without visibility keyword resolves to \<open>internal\<close>.
\<close>

theorem function_naming_exclusive:
  "length (filter (\<lambda>f. rule f = ''naming.privateInternalFunctions'')
        (added g (checkFunctionMatch cfg rules c content m g))) =
     (if \<not> isSpecialFunction (grp m 1)
         \<and> privateInternalFunctions rules = Some ''_underscoreMixedCase''
         \<and> privateOrInternal (grp m 3) \<and> \<not> isUnderscoreMixedCase (grp m 1) then 1 else 0)
   \<and> length (filter (\<lambda>f. rule f = ''naming.functions'')
        (added g (checkFunctionMatch cfg rules c content m g))) =
     (if \<not> isSpecialFunction (grp m 1)
         \<and> functionsStyle rules = Some ''mixedCase''
         \<and> \<not> (privateOrInternal (grp m 3)
               \<and> privateInternalFunctions rules = Some ''_underscoreMixedCase'')
         \<and> \<not> isMixedCase (grp m 1) then 1 else 0)
   \<and> length (filter (\<lambda>f. rule f = ''naming.privateInternalFunctions'')
        (added g (checkFunctionMatch cfg rules c content m g)))
     + length (filter (\<lambda>f. rule f = ''naming.functions'')
        (added g (checkFunctionMatch cfg rules c content m g))) \<le> 1
   \<and> (\<not> isSpecialFunction (grp m 1)
        \<and> privateInternalFunctions rules = Some ''_underscoreMixedCase''
        \<and> resolveVisibility (grp m 3) = js ''private''
        \<and> \<not> isUnderscoreMixedCase (grp m 1) \<longrightarrow>
      length (filter (\<lambda>f. rule f = ''naming.privateInternalFunctions'')
        (added g (checkFunctionMatch cfg rules c content m g))) = 1
      \<and> length (filter (\<lambda>f. rule f = ''naming.functions'')
        (added g (checkFunctionMatch cfg rules c content m g))) = 0)
   \<and> (exec visibilityPattern (grp m 3) 0 = None \<longrightarrow> resolveVisibility (grp m 3) = js ''internal'')"
proof -
  let ?new = "added g (checkFunctionMatch cfg rules c content m g)"
  have n: "?new = functionFindings cfg rules c content m"
    by (simp add: checkFunctionMatch_emit)
  have a: "length (filter (\<lambda>f. rule f = ''naming.privateInternalFunctions'') ?new) =
     (if \<not> isSpecialFunction (grp m 1)
         \<and> privateInternalFunctions rules = Some ''_underscoreMixedCase''
         \<and> privateOrInternal (grp m 3) \<and> \<not> isUnderscoreMixedCase (grp m 1) then 1 else 0)"
    unfolding n functionFindings_def isSpecialFunction_def privateOrInternal_def
    by (simp add: filter_arguments)
  have b: "length (filter (\<lambda>f. rule f = ''naming.functions'') ?new) =
     (if \<not> isSpecialFunction (grp m 1)
         \<and> functionsStyle rules = Some ''mixedCase''
         \<and> \<not> (privateOrInternal (grp m 3)
               \<and> privateInternalFunctions rules = Some ''_underscoreMixedCase'')
         \<and> \<not> isMixedCase (grp m 1) then 1 else 0)"
    unfolding n functionFindings_def isSpecialFunction_def privateOrInternal_def
    by (simp add: filter_arguments)
  have c: "exec visibilityPattern (grp m 3) 0 = None \<longrightarrow> resolveVisibility (grp m 3) = js ''internal''"
    by (simp add: resolveVisibility_def)
  from a b c show ?thesis
    unfolding privateOrInternal_def by (simp only: split: if_splits) auto
qed

text \<open>
  The example of the specification: \<^verbatim>\<open>function validateInput() private { }\<close> with both
  function-name rules on.
\<close>

definition underscoreConfig :: config where
  "underscoreConfig =
     \<lparr>RULES = \<lparr>cat_structure = None, cat_imports = None,
        cat_naming = Some \<lparr>contracts = None, functionsStyle = Some ''mixedCase'',
          functionArguments = None, privateInternalFunctions = Some ''_underscoreMixedCase'',
          events = None, eventsPastTense = False, constants = None\<rparr>,
        cat_layout = None\<rparr>,
      RULE_SEVERITY = Map.empty\<rparr>"

definition privateFunction :: contract where
  "privateFunction = \<lparr>path = js ''T.sol'', fileText = js ''function validateInput() private { }''\<rparr>"

definition privateFunctionMatch :: rmatch where
  "privateFunctionMatch =
     \<lparr>m_index = 0, m_end = 34,
      m_caps = [(1, js ''validateInput''), (2, []), (3, js ''private'')]\<rparr>"

lemma privateFunction_match:
  "exec functionPattern (fileText privateFunction) 0 = Some privateFunctionMatch"
  by (simp add: privateFunction_def privateFunctionMatch_def functionPattern_def regex_eval)

lemma privateFunction_run:
  "main underscoreConfig [privateFunction] initial =
   Some (\<lparr>issues = [\<lparr>fileName = js ''T.sol'', line = 1, rule = ''naming.privateInternalFunctions'',
             message = js ''private function '' @ [39] @ js ''validateInput'' @ [39]
               @ js '' should use _underscoreMixedCase style'',
             severity = ''error''\<rparr>],
           stats = \<lparr>files = 1, errors = 1, warnings = 0, info = 0, passed = 0\<rparr>\<rparr>, 1)"
  by (simp add: main_def exitStatus_def checkFile_def checkFileStructure_def checkImports_def
      checkNaming_def checkLayout_def underscoreConfig_def privateFunction_def initial_def Let_def
      truthyS_def forEachMatch_def execAll.simps functionPattern_def checkFunctionMatch_def
      resolveVisibility_def visibilityPattern_def isUnderscoreMixedCase_def isMixedCase_def
      addIssue_def lineNumberAt_def regex_eval)

theorem function_naming_witness:
  "exec functionPattern (fileText privateFunction) 0 = Some privateFunctionMatch
   \<and> length (filter (\<lambda>f. rule f = ''naming.privateInternalFunctions'')
        (added initial (checkFunctionMatch underscoreConfig (the (cat_naming (RULES underscoreConfig)))
           privateFunction (fileText privateFunction) privateFunctionMatch initial))) = 1
   \<and> length (filter (\<lambda>f. rule f = ''naming.functions'')
        (added initial (checkFunctionMatch underscoreConfig (the (cat_naming (RULES underscoreConfig)))
           privateFunction (fileText privateFunction) privateFunctionMatch initial))) = 0
   \<and> map rule (issues (fst (the (main underscoreConfig [privateFunction] initial)))) =
        [''naming.privateInternalFunctions'']"
proof -
  let ?rules = "the (cat_naming (RULES underscoreConfig))"
  have 1: "\<not> isSpecialFunction (grp privateFunctionMatch 1)"
    by (simp add: isSpecialFunction_def privateFunctionMatch_def grp_def js_def)
  have 2: "privateInternalFunctions ?rules = Some ''_underscoreMixedCase''"
    by (simp add: underscoreConfig_def)
  have 3: "resolveVisibility (grp privateFunctionMatch 3) = js ''private''"
    by (simp add: resolveVisibility_def visibilityPattern_def privateFunctionMatch_def regex_eval)
  have 4: "\<not> isUnderscoreMixedCase (grp privateFunctionMatch 1)"
    by (simp add: isUnderscoreMixedCase_def privateFunctionMatch_def regex_eval)
  note t = function_naming_exclusive [of initial underscoreConfig ?rules privateFunction
      "fileText privateFunction" privateFunctionMatch]
  from t have "\<not> isSpecialFunction (grp privateFunctionMatch 1)
        \<and> privateInternalFunctions ?rules = Some ''_underscoreMixedCase''
        \<and> resolveVisibility (grp privateFunctionMatch 3) = js ''private''
        \<and> \<not> isUnderscoreMixedCase (grp privateFunctionMatch 1) \<longrightarrow>
      length (filter (\<lambda>f. rule f = ''naming.privateInternalFunctions'')
        (added initial (checkFunctionMatch underscoreConfig ?rules privateFunction
           (fileText privateFunction) privateFunctionMatch initial))) = 1
      \<and> length (filter (\<lambda>f. rule f = ''naming.functions'')
        (added initial (checkFunctionMatch underscoreConfig ?rules privateFunction
           (fileText privateFunction) privateFunctionMatch initial))) = 0"
    by (rule conjunct1 [OF conjunct2 [OF conjunct2 [OF conjunct2]]])
  with 1 2 3 4 have "length (filter (\<lambda>f. rule f = ''naming.privateInternalFunctions'')
        (added initial (checkFunctionMatch underscoreConfig ?rules privateFunction
           (fileText privateFunction) privateFunctionMatch initial))) = 1
      \<and> length (filter (\<lambda>f. rule f = ''naming.functions'')
        (added initial (checkFunctionMatch underscoreConfig ?rules privateFunction
           (fileText privateFunction) privateFunctionMatch initial))) = 0"
    by blast
  moreover have "map rule (issues (fst (the (main underscoreConfig [privateFunction] initial)))) =
        [''naming.privateInternalFunctions'']"
    by (simp only: privateFunction_run option.sel fst_conv) simp
  ultimately show ?thesis using privateFunction_match by (intro conjI) simp_all
qed



section \<open>Tabs\<close>

lemma enumerate_nth_map: "enumerate k xs = map (\<lambda>i. (i, xs ! (i - k))) [k ..< k + length xs]"
  by (rule nth_equalityI) (simp_all add: nth_enumerate_eq)

lemma concat_map_if: "concat (map (\<lambda>i. if P i then [h i] else []) xs) = map h (filter P xs)"
  by (induction xs) simp_all

lemma includesStr_single: "includesStr s [c] \<longleftrightarrow> c \<in> set s"
  by (induction s) auto

text \<open>The finding for a tab on the line with index \<open>i\<close>.\<close>

definition tabFinding :: "contract \<Rightarrow> nat \<Rightarrow> finding" where
  "tabFinding c i =
     \<lparr>fileName = path c, line = i + 1, rule = ''layout.noTabs'',
      message = js ''Use spaces instead of tabs for indentation'', severity = ''error''\<rparr>"

lemma line_tabs:
  "filter (\<lambda>f. rule f = ''layout.noTabs'') (lineFindings cfg rules c i lineStr) =
   (if truthyN (indentation rules) \<and> noTabs rules \<and> 9 \<in> set lineStr then [tabFinding c i] else [])"
  by (cases "maxLineLength rules")
    (simp_all add: lineFindings_def includesStr_single tabFinding_def mk_def)

lemma layout_tabs:
  "filter (\<lambda>f. rule f = ''layout.noTabs'') (layoutFindings cfg c lines) =
   (case cat_layout (RULES cfg) of
      None \<Rightarrow> []
    | Some rules \<Rightarrow>
        if truthyN (indentation rules) \<and> noTabs rules then
          map (tabFinding c) (filter (\<lambda>i. 9 \<in> set (lines ! i)) [0 ..< length lines])
        else [])"
proof (cases "cat_layout (RULES cfg)")
  case None
  then show ?thesis by (simp add: layoutFindings_def)
next
  case (Some rules)
  have "filter (\<lambda>f. rule f = ''layout.noTabs'') (layoutFindings cfg c lines) =
      concat (map (\<lambda>i. if truthyN (indentation rules) \<and> noTabs rules \<and> 9 \<in> set (lines ! i)
        then [tabFinding c i] else []) [0 ..< length lines])"
    using Some
    by (simp add: layoutFindings_def enumerate_nth_map filter_concat comp_def line_tabs)
  also have "\<dots> = (if truthyN (indentation rules) \<and> noTabs rules then
          map (tabFinding c) (filter (\<lambda>i. 9 \<in> set (lines ! i)) [0 ..< length lines])
        else [])"
    by (cases "truthyN (indentation rules) \<and> noTabs rules") (auto simp: concat_map_if)
  finally show ?thesis using Some by simp
qed

lemma other_passes_no_tabs:
  "filter (\<lambda>f. rule f = ''layout.noTabs'') (structureFindings cfg c content lines) = []"
  "filter (\<lambda>f. rule f = ''layout.noTabs'') (importsFindings cfg c lines) = []"
  "filter (\<lambda>f. rule f = ''layout.noTabs'') (namingFindings cfg c content) = []"
proof -
  show "filter (\<lambda>f. rule f = ''layout.noTabs'') (structureFindings cfg c content lines) = []"
    using structure_rule [of _ cfg c content lines]
    by (fastforce simp: filter_empty_conv structureRuleIds_def)
  show "filter (\<lambda>f. rule f = ''layout.noTabs'') (importsFindings cfg c lines) = []"
    using imports_rule [of _ cfg c lines]
    by (fastforce simp: filter_empty_conv importsRuleIds_def)
  show "filter (\<lambda>f. rule f = ''layout.noTabs'') (namingFindings cfg c content) = []"
    using naming_rule [of _ cfg c content]
    by (fastforce simp: filter_empty_conv namingRuleIds_def)
qed

lemma checkFile_added:
  "\<exists>g'. checkFile cfg c g = Some g' \<and> added g g' = fileFindings cfg c"
  by (simp add: checkFile_emit added_def)

text \<open>
  C7, as amended. Checking a file returns, and its \<open>layout.noTabs\<close> findings are, in
  order, one finding of severity \<open>error\<close> for each line that contains a tab (code unit 9)
  anywhere, when the layout category is present and both \<open>indentation\<close> (a number other
  than 0) and \<open>noTabs\<close> are set; there is none otherwise. In particular, with both set,
  every line with a tab has a \<open>layout.noTabs\<close> finding of severity \<open>error\<close> at its line
  number.
\<close>

theorem tabs_reported_when_indentation_set:
  "\<exists>g'. checkFile cfg c g = Some g'
     \<and> filter (\<lambda>f. rule f = ''layout.noTabs'') (added g g') =
         (case cat_layout (RULES cfg) of
            None \<Rightarrow> []
          | Some rules \<Rightarrow>
              if truthyN (indentation rules) \<and> noTabs rules then
                map (tabFinding c)
                  (filter (\<lambda>i. 9 \<in> set (split 10 (fileText c) ! i))
                     [0 ..< length (split 10 (fileText c))])
              else [])
     \<and> (\<forall>rules i. cat_layout (RULES cfg) = Some rules \<and> truthyN (indentation rules)
            \<and> noTabs rules \<and> i < length (split 10 (fileText c))
            \<and> 9 \<in> set (split 10 (fileText c) ! i) \<longrightarrow>
          (\<exists>f \<in> set (added g g'). rule f = ''layout.noTabs'' \<and> line f = i + 1
             \<and> severity f = ''error''))"
proof -
  let ?lines = "split 10 (fileText c)"
  from checkFile_added [of cfg c g] obtain g' where r: "checkFile cfg c g = Some g'"
    and a: "added g g' = fileFindings cfg c" by blast
  have t: "filter (\<lambda>f. rule f = ''layout.noTabs'') (added g g') =
         (case cat_layout (RULES cfg) of
            None \<Rightarrow> []
          | Some rules \<Rightarrow>
              if truthyN (indentation rules) \<and> noTabs rules then
                map (tabFinding c) (filter (\<lambda>i. 9 \<in> set (?lines ! i)) [0 ..< length ?lines])
              else [])"
    by (simp add: a fileFindings_def other_passes_no_tabs layout_tabs)
  have e: "\<exists>f \<in> set (added g g'). rule f = ''layout.noTabs'' \<and> line f = i + 1
             \<and> severity f = ''error''"
    if h: "cat_layout (RULES cfg) = Some rules" "truthyN (indentation rules)" "noTabs rules"
      "i < length ?lines" "9 \<in> set (?lines ! i)" for rules i
  proof -
    from h t have "tabFinding c i \<in> set (filter (\<lambda>f. rule f = ''layout.noTabs'') (added g g'))"
      by simp
    then have "tabFinding c i \<in> set (added g g')" by simp
    then show ?thesis by (rule bexI [rotated]) (simp add: tabFinding_def)
  qed
  from r t e show ?thesis by (intro exI [of _ g'] conjI) blast+
qed

text \<open>A file whose second line starts with a tab, with and without an indentation width.\<close>

definition tabsConfig :: config where
  "tabsConfig =
     \<lparr>RULES = \<lparr>cat_structure = None, cat_imports = None, cat_naming = None,
        cat_layout = Some \<lparr>maxLineLength = None, indentation = Some 4, noTabs = True,
          noTrailingWhitespace = False\<rparr>\<rparr>,
      RULE_SEVERITY = Map.empty\<rparr>"

definition noIndentationConfig :: config where
  "noIndentationConfig =
     \<lparr>RULES = \<lparr>cat_structure = None, cat_imports = None, cat_naming = None,
        cat_layout = Some \<lparr>maxLineLength = None, indentation = None, noTabs = True,
          noTrailingWhitespace = False\<rparr>\<rparr>,
      RULE_SEVERITY = Map.empty\<rparr>"

definition tabbed :: contract where
  "tabbed = \<lparr>path = js ''T.sol'', fileText = js ''a'' @ [10, 9] @ js ''b''\<rparr>"

lemma tabbed_lines: "split 10 (fileText tabbed) = [js ''a'', 9 # js ''b'']"
  by (simp add: tabbed_def js_def Let_def)

theorem tabs_reported_witness:
  "\<exists>g'. checkFile tabsConfig tabbed initial = Some g'
     \<and> filter (\<lambda>f. rule f = ''layout.noTabs'') (added initial g') = [tabFinding tabbed 1]
     \<and> (\<exists>f \<in> set (added initial g'). rule f = ''layout.noTabs'' \<and> line f = 2
           \<and> severity f = ''error'')"
proof -
  let ?rules = "\<lparr>maxLineLength = None, indentation = Some 4, noTabs = True,
          noTrailingWhitespace = False\<rparr>"
  from tabs_reported_when_indentation_set [of tabsConfig tabbed initial]
  obtain g' where r: "checkFile tabsConfig tabbed initial = Some g'"
    and t: "filter (\<lambda>f. rule f = ''layout.noTabs'') (added initial g') =
         (case cat_layout (RULES tabsConfig) of
            None \<Rightarrow> []
          | Some rules \<Rightarrow>
              if truthyN (indentation rules) \<and> noTabs rules then
                map (tabFinding tabbed)
                  (filter (\<lambda>i. 9 \<in> set (split 10 (fileText tabbed) ! i))
                     [0 ..< length (split 10 (fileText tabbed))])
              else [])"
    and e: "\<forall>rules i. cat_layout (RULES tabsConfig) = Some rules \<and> truthyN (indentation rules)
            \<and> noTabs rules \<and> i < length (split 10 (fileText tabbed))
            \<and> 9 \<in> set (split 10 (fileText tabbed) ! i) \<longrightarrow>
          (\<exists>f \<in> set (added initial g'). rule f = ''layout.noTabs'' \<and> line f = i + 1
             \<and> severity f = ''error'')"
    by blast
  have h: "cat_layout (RULES tabsConfig) = Some ?rules \<and> truthyN (indentation ?rules)
            \<and> noTabs ?rules \<and> 1 < length (split 10 (fileText tabbed))
            \<and> 9 \<in> set (split 10 (fileText tabbed) ! 1)"
    by (simp add: tabsConfig_def truthyN_def tabbed_lines js_def)
  from e have "cat_layout (RULES tabsConfig) = Some ?rules \<and> truthyN (indentation ?rules)
            \<and> noTabs ?rules \<and> 1 < length (split 10 (fileText tabbed))
            \<and> 9 \<in> set (split 10 (fileText tabbed) ! 1) \<longrightarrow>
          (\<exists>f \<in> set (added initial g'). rule f = ''layout.noTabs'' \<and> line f = 1 + 1
             \<and> severity f = ''error'')"
    by blast
  with h have 1: "\<exists>f \<in> set (added initial g'). rule f = ''layout.noTabs'' \<and> line f = 2
             \<and> severity f = ''error''"
    by (simp add: numeral_2_eq_2)
  from t have 2: "filter (\<lambda>f. rule f = ''layout.noTabs'') (added initial g') = [tabFinding tabbed 1]"
    by (simp add: tabsConfig_def truthyN_def tabbed_lines js_def upt_rec)
  from r 1 2 show ?thesis by (intro exI [of _ g'] conjI)
qed

text \<open>
  C7, as stated, fails: with \<open>noTabs\<close> set and no \<open>indentation\<close> width, the tab on line 2
  is not reported.
\<close>

theorem tabs_unreported_counterexample:
  "cat_layout (RULES noIndentationConfig) =
     Some \<lparr>maxLineLength = None, indentation = None, noTabs = True, noTrailingWhitespace = False\<rparr>
   \<and> split 10 (fileText tabbed) = [js ''a'', 9 # js ''b'']
   \<and> main noIndentationConfig [tabbed] initial =
       Some (\<lparr>issues = [],
               stats = \<lparr>files = 1, errors = 0, warnings = 0, info = 0, passed = 0\<rparr>\<rparr>, 0)"
proof (intro conjI)
  show "cat_layout (RULES noIndentationConfig) =
     Some \<lparr>maxLineLength = None, indentation = None, noTabs = True, noTrailingWhitespace = False\<rparr>"
    by (simp add: noIndentationConfig_def)
  show "split 10 (fileText tabbed) = [js ''a'', 9 # js ''b'']"
    by (rule tabbed_lines)
  show "main noIndentationConfig [tabbed] initial =
       Some (\<lparr>issues = [],
               stats = \<lparr>files = 1, errors = 0, warnings = 0, info = 0, passed = 0\<rparr>\<rparr>, 0)"
    by (simp add: main_def exitStatus_def checkFile_def checkFileStructure_def checkImports_def
        checkNaming_def checkLayout_def noIndentationConfig_def initial_def Let_def tabbed_lines
        checkLine_def truthyN_def enumerate_eq_zip upt_rec)
qed



section \<open>The import pass: order and form\<close>







text \<open>The import lines of a file: trimmed text and line number.\<close>

definition fileImports :: "contract \<Rightarrow> (jstring \<times> nat) list" where
  "fileImports c = collectImports (split 10 (fileText c))"

lemma collectImports_nth:
  "collectImports lines =
   map (\<lambda>i. (trim (lines ! i), i + 1))
     (filter (\<lambda>i. startsWith (trim (lines ! i)) (js ''import '')) [0 ..< length lines])"
  by (simp add: collectImports_def enumerate_nth_map filter_map comp_def)

lemma distinct_import_lines: "distinct (map snd (collectImports lines))"
proof -
  have "map snd (collectImports lines) =
      map Suc (filter (\<lambda>i. startsWith (trim (lines ! i)) (js ''import '')) [0 ..< length lines])"
    by (simp add: collectImports_nth comp_def)
  then show ?thesis by (simp add: distinct_map)
qed


definition namedOnlyFinding :: "contract \<Rightarrow> nat \<Rightarrow> finding" where
  "namedOnlyFinding c n =
     \<lparr>fileName = path c, line = n, rule = ''imports.namedOnly'',
      message = js ''Use named imports: import {Contract} from '' @ [34] @ js ''./file.sol'' @ [34],
      severity = ''warning''\<rparr>"


lemma import_namedOnly:
  "filter (\<lambda>f. rule f = ''imports.namedOnly'') (importFindings rules c imps i l n) =
   (if namedOnly rules \<and> \<not> test namedImportPattern l then [namedOnlyFinding c n] else [])"
  by (simp add: importFindings_def namedOnlyFinding_def mk_def)

lemma imports_concat:
  "cat_imports (RULES cfg) = Some rules \<Longrightarrow>
   importsFindings cfg c lines =
   concat (map (\<lambda>i. importFindings rules c (collectImports lines) i
       (fst (collectImports lines ! i)) (snd (collectImports lines ! i)))
     [0 ..< length (collectImports lines)])"
  by (simp add: importsFindings_def enumerate_nth_map comp_def case_prod_beta)


lemma imports_namedOnly:
  assumes "cat_imports (RULES cfg) = Some rules" and "namedOnly rules"
  shows "filter (\<lambda>f. rule f = ''imports.namedOnly'') (importsFindings cfg c lines) =
     map (\<lambda>e. namedOnlyFinding c (snd e))
       (filter (\<lambda>e. \<not> test namedImportPattern (fst e)) (collectImports lines))"
proof -
  let ?imps = "collectImports lines"
  have "filter (\<lambda>f. rule f = ''imports.namedOnly'') (importsFindings cfg c lines) =
      concat (map (\<lambda>i. if \<not> test namedImportPattern (fst (?imps ! i))
          then [namedOnlyFinding c (snd (?imps ! i))] else [])
        [0 ..< length ?imps])"
    using assms by (simp add: imports_concat filter_concat comp_def import_namedOnly)
  also have "\<dots> = concat (map (\<lambda>e. if \<not> test namedImportPattern (fst e)
          then [namedOnlyFinding c (snd e)] else []) (map (\<lambda>i. ?imps ! i) [0 ..< length ?imps]))"
    by (simp add: comp_def)
  also have "map (\<lambda>i. ?imps ! i) [0 ..< length ?imps] = ?imps" by (rule map_nth)
  finally show ?thesis by (simp add: concat_map_if)
qed

lemma other_passes_no_imports:
  assumes "r \<in> set importsRuleIds"
  shows "filter (\<lambda>f. rule f = r) (structureFindings cfg c content lines) = []"
    and "filter (\<lambda>f. rule f = r) (namingFindings cfg c content) = []"
    and "filter (\<lambda>f. rule f = r) (layoutFindings cfg c lines) = []"
proof -
  show "filter (\<lambda>f. rule f = r) (structureFindings cfg c content lines) = []"
    using assms structure_rule [of _ cfg c content lines]
    by (fastforce simp: filter_empty_conv structureRuleIds_def importsRuleIds_def)
  show "filter (\<lambda>f. rule f = r) (namingFindings cfg c content) = []"
    using assms naming_rule [of _ cfg c content]
    by (fastforce simp: filter_empty_conv namingRuleIds_def importsRuleIds_def)
  show "filter (\<lambda>f. rule f = r) (layoutFindings cfg c lines) = []"
    using assms layout_rule [of _ cfg c lines]
    by (fastforce simp: filter_empty_conv layoutRuleIds_def importsRuleIds_def)
qed

lemma file_import_findings:
  assumes "r \<in> set importsRuleIds"
  shows "filter (\<lambda>f. rule f = r) (fileFindings cfg c) =
     filter (\<lambda>f. rule f = r) (importsFindings cfg c (split 10 (fileText c)))"
  by (simp add: fileFindings_def other_passes_no_imports [OF assms])

lemma fileImports_nth:
  "fileImports c =
   map (\<lambda>i. (trim (split 10 (fileText c) ! i), i + 1))
     (filter (\<lambda>i. startsWith (trim (split 10 (fileText c) ! i)) (js ''import ''))
        [0 ..< length (split 10 (fileText c))])"
  by (simp add: fileImports_def collectImports_nth)

lemma import_line_unique:
  assumes "i < length (fileImports c)" and "j < length (fileImports c)"
    and "snd (fileImports c ! j) = snd (fileImports c ! i)"
  shows "j = i"
proof -
  have "distinct (map snd (fileImports c))"
    unfolding fileImports_def by (rule distinct_import_lines)
  then have "(map snd (fileImports c) ! j = map snd (fileImports c) ! i) = (j = i)"
    using assms(1,2) by (intro nth_eq_iff_index_eq) simp_all
  with assms show ?thesis by simp
qed









text \<open>
  C5, as amended. With the named-import rule on, checking a file returns and its
  \<open>imports.namedOnly\<close> findings are, in order, one for each import line (a line whose
  trimmed text starts with \<open>import\<close> and a space) whose trimmed text does not match
  \<open>namedImportPattern\<close>, at that line: an import line has such a finding exactly when it
  does not match. The pattern asks for one or more characters other than \<open>}\<close> between
  the braces, whatever they are.
\<close>

theorem named_import_findings:
  "\<exists>g'. checkFile cfg c g = Some g'
     \<and> fileImports c =
         map (\<lambda>i. (trim (split 10 (fileText c) ! i), i + 1))
           (filter (\<lambda>i. startsWith (trim (split 10 (fileText c) ! i)) (js ''import ''))
              [0 ..< length (split 10 (fileText c))])
     \<and> (\<forall>rules. cat_imports (RULES cfg) = Some rules \<and> namedOnly rules \<longrightarrow>
          filter (\<lambda>f. rule f = ''imports.namedOnly'') (added g g') =
            map (\<lambda>e. namedOnlyFinding c (snd e))
              (filter (\<lambda>e. \<not> test namedImportPattern (fst e)) (fileImports c))
          \<and> (\<forall>i. i < length (fileImports c) \<longrightarrow>
                ((\<exists>f \<in> set (added g g'). rule f = ''imports.namedOnly''
                     \<and> line f = snd (fileImports c ! i))
                 \<longleftrightarrow> \<not> test namedImportPattern (fst (fileImports c ! i)))))"
proof -
  let ?imps = "fileImports c"
  let ?N = "\<lambda>g'. filter (\<lambda>f. rule f = ''imports.namedOnly'') (added g g')"
  from checkFile_added [of cfg c g] obtain g' where r: "checkFile cfg c g = Some g'"
    and a: "added g g' = fileFindings cfg c" by blast
  have main: "?N g' = map (\<lambda>e. namedOnlyFinding c (snd e))
      (filter (\<lambda>e. \<not> test namedImportPattern (fst e)) ?imps)"
    if "cat_imports (RULES cfg) = Some rules" "namedOnly rules" for rules
    using that
    by (simp add: a file_import_findings importsRuleIds_def imports_namedOnly fileImports_def)
  have iff: "(\<exists>f \<in> set (added g g'). rule f = ''imports.namedOnly'' \<and> line f = snd (?imps ! i))
      \<longleftrightarrow> \<not> test namedImportPattern (fst (?imps ! i))"
    if h: "cat_imports (RULES cfg) = Some rules" "namedOnly rules"
      and i: "i < length ?imps" for rules i
  proof
    assume "\<exists>f \<in> set (added g g'). rule f = ''imports.namedOnly'' \<and> line f = snd (?imps ! i)"
    then obtain f where "f \<in> set (?N g')" and l: "line f = snd (?imps ! i)" by auto
    with main [OF h] obtain e where e: "e \<in> set ?imps" "\<not> test namedImportPattern (fst e)"
      and f: "f = namedOnlyFinding c (snd e)" by auto
    from e(1) obtain j where j: "j < length ?imps" "e = ?imps ! j"
      by (auto simp: in_set_conv_nth)
    from f l j have "snd (?imps ! j) = snd (?imps ! i)" by (simp add: namedOnlyFinding_def)
    with import_line_unique [OF i j(1)] have "j = i" by simp
    with j e show "\<not> test namedImportPattern (fst (?imps ! i))" by simp
  next
    assume "\<not> test namedImportPattern (fst (?imps ! i))"
    with i have "?imps ! i \<in> set (filter (\<lambda>e. \<not> test namedImportPattern (fst e)) ?imps)"
      by simp
    then have "namedOnlyFinding c (snd (?imps ! i))
        \<in> (\<lambda>e. namedOnlyFinding c (snd e)) ` set (filter (\<lambda>e. \<not> test namedImportPattern (fst e)) ?imps)"
      by (rule imageI)
    then have "namedOnlyFinding c (snd (?imps ! i)) \<in> set (?N g')"
      by (simp only: main [OF h] set_map)
    then show "\<exists>f \<in> set (added g g'). rule f = ''imports.namedOnly'' \<and> line f = snd (?imps ! i)"
      by (intro bexI [of _ "namedOnlyFinding c (snd (?imps ! i))"])
        (simp_all add: namedOnlyFinding_def)
  qed
  show ?thesis
  proof (intro exI [of _ g'] conjI allI impI)
    show "checkFile cfg c g = Some g'" by (rule r)
    show "?imps = map (\<lambda>i. (trim (split 10 (fileText c) ! i), i + 1))
           (filter (\<lambda>i. startsWith (trim (split 10 (fileText c) ! i)) (js ''import ''))
              [0 ..< length (split 10 (fileText c))])"
      by (rule fileImports_nth)
  next
    fix rules
    assume "cat_imports (RULES cfg) = Some rules \<and> namedOnly rules"
    then show "?N g' = map (\<lambda>e. namedOnlyFinding c (snd e))
        (filter (\<lambda>e. \<not> test namedImportPattern (fst e)) ?imps)"
      using main by blast
  next
    fix rules i
    assume "cat_imports (RULES cfg) = Some rules \<and> namedOnly rules" and "i < length ?imps"
    then show "(\<exists>f \<in> set (added g g'). rule f = ''imports.namedOnly''
        \<and> line f = snd (?imps ! i)) \<longleftrightarrow> \<not> test namedImportPattern (fst (?imps ! i))"
      using iff by blast
  qed
qed

text \<open>Only the named-import rule is on.\<close>

definition namedOnlyConfig :: config where
  "namedOnlyConfig =
     \<lparr>RULES = \<lparr>cat_structure = None,
        cat_imports = Some \<lparr>namedOnly = True, alphabetical = False\<rparr>,
        cat_naming = None, cat_layout = None\<rparr>,
      RULE_SEVERITY = Map.empty\<rparr>"

lemma plainImport_imports: "fileImports plainImport = [(fileText plainImport, 1)]"
  by (simp add: fileImports_def collectImports_def plainImport_def js_def
      Let_def trim_def startsWith_def enumerate_eq_zip upt_rec isSpace_def isLineTerminator_def)

lemma plainImport_unnamed: "\<not> test namedImportPattern (fileText plainImport)"
  by (simp add: plainImport_def namedImportPattern_def regex_eval)

theorem named_import_witness:
  "\<exists>g'. checkFile namedOnlyConfig plainImport initial = Some g'
     \<and> filter (\<lambda>f. rule f = ''imports.namedOnly'') (added initial g') =
         [namedOnlyFinding plainImport 1]"
proof -
  let ?rules = "\<lparr>namedOnly = True, alphabetical = False\<rparr>"
  from named_import_findings [of namedOnlyConfig plainImport initial]
  obtain g' where r: "checkFile namedOnlyConfig plainImport initial = Some g'"
    and t: "\<forall>rules. cat_imports (RULES namedOnlyConfig) = Some rules \<and> namedOnly rules \<longrightarrow>
          filter (\<lambda>f. rule f = ''imports.namedOnly'') (added initial g') =
            map (\<lambda>e. namedOnlyFinding plainImport (snd e))
              (filter (\<lambda>e. \<not> test namedImportPattern (fst e)) (fileImports plainImport))
          \<and> (\<forall>i. i < length (fileImports plainImport) \<longrightarrow>
                ((\<exists>f \<in> set (added initial g'). rule f = ''imports.namedOnly''
                     \<and> line f = snd (fileImports plainImport ! i))
                 \<longleftrightarrow> \<not> test namedImportPattern (fst (fileImports plainImport ! i))))"
    by blast
  have h: "cat_imports (RULES namedOnlyConfig) = Some ?rules \<and> namedOnly ?rules"
    by (simp add: namedOnlyConfig_def)
  from t h have "filter (\<lambda>f. rule f = ''imports.namedOnly'') (added initial g') =
            map (\<lambda>e. namedOnlyFinding plainImport (snd e))
              (filter (\<lambda>e. \<not> test namedImportPattern (fst e)) (fileImports plainImport))"
    by blast
  then have "filter (\<lambda>f. rule f = ''imports.namedOnly'') (added initial g') =
         [namedOnlyFinding plainImport 1]"
    by (simp add: plainImport_imports plainImport_unnamed)
  with r show ?thesis by (intro exI [of _ g'] conjI)
qed

text \<open>
  The grammar of a named import in the words of the specification:
  \<^verbatim>\<open>import {Identifiers} from "path";\<close>, the braces holding one or more identifier names
  (taken here as separated by commas, white space around them allowed), then \<open>from\<close> and a
  quoted path, with an optional semicolon at the end.
\<close>

definition isIdentifier :: "jstring \<Rightarrow> bool" where
  "isIdentifier name = test [Bol, One identStart, Star identRest, Eol] name"

definition specNamedImport :: "jstring \<Rightarrow> bool" where
  "specNamedImport l =
     (case exec [Bol, Lit ''import'', Plus ws, Lit ''{'', Grp 1 [Plus (Neg [COne CHR ''}''])],
                 Lit ''}'', Plus ws, Lit ''from'', Plus ws, One quote, Plus notQuote, One quote,
                 Opt [Lit '';''], Eol] l 0 of
        None \<Rightarrow> False
      | Some m \<Rightarrow> list_all isIdentifier (map trim (split 44 (grp m 1))))"

text \<open>
  C5, as stated, fails on two import lines whose braces do not hold identifier names and
  which get no finding, because they match the pattern of the checker:
  \<^verbatim>\<open>import {+} from "./a.sol";\<close> and the aliased import
  \<^verbatim>\<open>import {A as B} from "./a.sol";\<close>.
\<close>

definition oddBraces :: jstring where
  "oddBraces = js ''import {+} from '' @ [34] @ js ''./a.sol'' @ [34] @ js '';''"

definition aliasImport :: jstring where
  "aliasImport = js ''import {A as B} from '' @ [34] @ js ''./a.sol'' @ [34] @ js '';''"

definition oddImports :: contract where
  "oddImports = \<lparr>path = js ''T.sol'', fileText = oddBraces @ [10] @ aliasImport\<rparr>"

theorem named_import_grammar_counterexample:
  "split 10 (fileText oddImports) = [oddBraces, aliasImport]
   \<and> \<not> specNamedImport oddBraces \<and> \<not> specNamedImport aliasImport
   \<and> main namedOnlyConfig [oddImports] initial =
       Some (\<lparr>issues = [],
               stats = \<lparr>files = 1, errors = 0, warnings = 0, info = 0, passed = 0\<rparr>\<rparr>, 0)"
proof (intro conjI)
  show "split 10 (fileText oddImports) = [oddBraces, aliasImport]"
    by (simp add: oddImports_def oddBraces_def aliasImport_def js_def Let_def)
  show "\<not> specNamedImport oddBraces"
    by (simp add: specNamedImport_def oddBraces_def isIdentifier_def trim_def Let_def regex_eval)
  show "\<not> specNamedImport aliasImport"
    by (simp add: specNamedImport_def aliasImport_def isIdentifier_def trim_def Let_def regex_eval)
  show "main namedOnlyConfig [oddImports] initial =
       Some (\<lparr>issues = [],
               stats = \<lparr>files = 1, errors = 0, warnings = 0, info = 0, passed = 0\<rparr>\<rparr>, 0)"
    by (simp add: main_def exitStatus_def checkFile_def checkFileStructure_def checkImports_def
        checkNaming_def checkLayout_def namedOnlyConfig_def oddImports_def oddBraces_def
        aliasImport_def initial_def Let_def collectImports_def checkImport_def startsWith_def
        trim_def enumerate_eq_zip namedImportPattern_def regex_eval)
qed

end
